theory Spec2Isabelle
  imports Complex_Main
begin

section \<open>Python values: errors, \<open>int()\<close> and \<open>str.split\<close>\<close>

text \<open>
  The exceptions the modelled functions can raise. A function that can raise returns
  \<open>py_error + 'a\<close>, with \<open>Inl\<close> for the exception that aborts the call.
\<close>

datatype py_error =
  ValueError | TypeError | IndexError | KeyError | ZeroDivisionError | OverflowError

text \<open>
  \<open>int(s)\<close> on a string, restricted to ASCII: surrounding whitespace is stripped, one
  sign is allowed, then decimal digits follow, where single underscores may stand between
  two digits. Anything else raises \<open>ValueError\<close>. The whitespace \<open>int\<close> strips from
  an ASCII string is tab, line feed, vertical tab, form feed, carriage return and space;
  the separators \<open>0x1C\<close> to \<open>0x1F\<close>, which \<open>str.strip\<close> would remove, are not
  among them. (Non-ASCII decimal digits and spaces, which Python also accepts, and the
  interpreter's limit on the number of digits are outside the model.)
\<close>

definition digit_of :: "char \<Rightarrow> int option" where
  "digit_of c = map_of
     [(CHR ''0'', 0), (CHR ''1'', 1), (CHR ''2'', 2), (CHR ''3'', 3), (CHR ''4'', 4),
      (CHR ''5'', 5), (CHR ''6'', 6), (CHR ''7'', 7), (CHR ''8'', 8), (CHR ''9'', 9)] c"

definition is_space :: "char \<Rightarrow> bool" where
  "is_space c = (c \<in> set [CHR 0x09, CHR 0x0A, CHR 0x0B, CHR 0x0C, CHR 0x0D, CHR 0x20])"

definition strip :: "string \<Rightarrow> string" where
  "strip s = rev (dropWhile is_space (rev (dropWhile is_space s)))"

fun digits_value :: "int \<Rightarrow> string \<Rightarrow> int option" where
  "digits_value acc [] = Some acc"
| "digits_value acc [c] =
     (case digit_of c of Some d \<Rightarrow> Some (acc * 10 + d) | None \<Rightarrow> None)"
| "digits_value acc (c # c' # cs) =
     (case digit_of c of
        Some d \<Rightarrow> digits_value (acc * 10 + d) (c' # cs)
      | None \<Rightarrow>
          (if c = CHR ''_'' then
             (case digit_of c' of
                Some d \<Rightarrow> digits_value (acc * 10 + d) cs
              | None \<Rightarrow> None)
           else None))"

definition unsigned_value :: "string \<Rightarrow> int option" where
  "unsigned_value s =
     (case s of
        [] \<Rightarrow> None
      | c # cs \<Rightarrow> (case digit_of c of Some d \<Rightarrow> digits_value d cs | None \<Rightarrow> None))"

definition py_int :: "string \<Rightarrow> py_error + int" where
  "py_int s =
     (case strip s of
        [] \<Rightarrow> Inl ValueError
      | c # cs \<Rightarrow>
          (case (if c = CHR ''-'' then map_option uminus (unsigned_value cs)
                 else if c = CHR ''+'' then unsigned_value cs
                 else unsigned_value (c # cs)) of
             None \<Rightarrow> Inl ValueError
           | Some v \<Rightarrow> Inr v))"

text \<open>\<open>s.split(sep)\<close> for a one-character separator: never the empty list.\<close>

fun str_split :: "char \<Rightarrow> string \<Rightarrow> string list" where
  "str_split sep [] = [[]]"
| "str_split sep (c # cs) =
     (if c = sep then [] # str_split sep cs
      else (case str_split sep cs of
              [] \<Rightarrow> [[c]]
            | p # ps \<Rightarrow> (c # p) # ps))"

section \<open>Time converter (\<open>nhl_ice_players_parser.convert_time_to_seconds\<close>)\<close>

text \<open>
  The argument is \<open>None\<close> where \<open>pd.isna\<close> holds (a missing clock), and the result
  is \<open>None\<close> where the function returns Python's \<open>None\<close>.
\<close>

definition convert_time_to_seconds :: "string option \<Rightarrow> py_error + int option" where
  "convert_time_to_seconds time_str =
     (case time_str of
        None \<Rightarrow> Inr None
      | Some s \<Rightarrow>
          (case str_split (CHR '':'') s of
             [minutes, seconds] \<Rightarrow>
               (case py_int minutes of
                  Inl e \<Rightarrow> Inl e
                | Inr m \<Rightarrow>
                    (case py_int seconds of
                       Inl e \<Rightarrow> Inl e
                     | Inr sec \<Rightarrow> Inr (Some (m * 60 + sec))))
           | _ \<Rightarrow> Inr None))"

section \<open>Presence query (\<open>nhl_ice_players_parser.get_players_on_ice\<close>)\<close>

text \<open>A row of the shift chart; \<open>shift_typeCode\<close> is its \<open>typeCode\<close> column.\<close>

record shift =
  playerId :: int
  teamAbbrev :: string
  period :: int
  startTime :: "string option"
  endTime :: "string option"
  shift_typeCode :: int

text \<open>
  The chained comparison \<open>start_seconds < time_seconds <= end_seconds\<close>: comparing
  with \<open>None\<close> raises \<open>TypeError\<close>, and the second comparison is only made when the
  first holds.
\<close>

definition chained_compare :: "int option \<Rightarrow> int option \<Rightarrow> int option \<Rightarrow> py_error + bool" where
  "chained_compare start_seconds time_seconds end_seconds =
     (case (start_seconds, time_seconds) of
        (Some a, Some t) \<Rightarrow>
          (if a < t then
             (case end_seconds of Some b \<Rightarrow> Inr (t \<le> b) | None \<Rightarrow> Inl TypeError)
           else Inr False)
      | _ \<Rightarrow> Inl TypeError)"

text \<open>The loop over the selected rows; \<open>players_on_ice\<close> is the list built so far.\<close>

fun on_ice_loop :: "shift list \<Rightarrow> int option \<Rightarrow> int list \<Rightarrow> py_error + int list" where
  "on_ice_loop [] time_seconds players_on_ice = Inr players_on_ice"
| "on_ice_loop (s # rest) time_seconds players_on_ice =
     (if shift_typeCode s = 505 then on_ice_loop rest time_seconds players_on_ice
      else
        (case convert_time_to_seconds (startTime s) of
           Inl e \<Rightarrow> Inl e
         | Inr start_seconds \<Rightarrow>
             (case convert_time_to_seconds (endTime s) of
                Inl e \<Rightarrow> Inl e
              | Inr end_seconds \<Rightarrow>
                  (case chained_compare start_seconds time_seconds end_seconds of
                     Inl e \<Rightarrow> Inl e
                   | Inr True \<Rightarrow> on_ice_loop rest time_seconds (players_on_ice @ [playerId s])
                   | Inr False \<Rightarrow> on_ice_loop rest time_seconds players_on_ice))))"

text \<open>
  The two row masks: the period, then the team when \<open>team\<close> is truthy (neither
  \<open>None\<close> nor the empty string).
\<close>

definition period_shifts :: "shift list \<Rightarrow> int \<Rightarrow> string option \<Rightarrow> shift list" where
  "period_shifts shifts_df p team =
     (let rows = filter (\<lambda>s. period s = p) shifts_df in
      case team of
        None \<Rightarrow> rows
      | Some t \<Rightarrow> if t = [] then rows else filter (\<lambda>s. teamAbbrev s = t) rows)"

definition get_players_on_ice ::
  "shift list \<Rightarrow> int \<Rightarrow> string option \<Rightarrow> string option \<Rightarrow> py_error + int list" where
  "get_players_on_ice shifts_df p time_in_period team =
     (case convert_time_to_seconds time_in_period of
        Inl e \<Rightarrow> Inl e
      | Inr time_seconds \<Rightarrow> on_ice_loop (period_shifts shifts_df p team) time_seconds [])"

section \<open>Event enrichment (\<open>nhl_ice_players_parser.combine_pbp_with_shifts\<close>)\<close>

text \<open>
  A row of the play-by-play frame, with the columns the pipeline reads. A field is
  \<open>None\<close> where \<open>pd.isna\<close> holds for the cell.
\<close>

record play =
  periodNumber :: "int option"
  timeInPeriod :: "string option"
  typeCode :: int
  situationCode :: int
  shootingPlayerId :: "int option"

text \<open>
  The row after enrichment. The on-ice columns start as \<open>None\<close> and are set to
  \<open>str(players)\<close>, which the aggregation reads back with \<open>ast.literal_eval\<close>;
  the model keeps the list itself.
\<close>

record enriched = play +
  homePlayersOnIce :: "int list option"
  awayPlayersOnIce :: "int list option"
  homePlayersCount :: int
  awayPlayersCount :: int

text \<open>\<open>Series.unique()\<close>: the values in the order of their first appearance.\<close>

fun unique_from :: "'a list \<Rightarrow> 'a list \<Rightarrow> 'a list" where
  "unique_from seen [] = []"
| "unique_from seen (x # xs) =
     (if x \<in> set seen then unique_from seen xs else x # unique_from (x # seen) xs)"

definition unique :: "'a list \<Rightarrow> 'a list" where
  "unique xs = unique_from [] xs"

text \<open>
  \<open>home_team\<close> and \<open>away_team\<close>: the first and second distinct abbreviation of
  the shift chart. A frame built from no rows has no \<open>teamAbbrev\<close> column
  (\<open>KeyError\<close>); with one team only, index 1 is out of range (\<open>IndexError\<close>).
\<close>

definition home_away_teams :: "shift list \<Rightarrow> py_error + string \<times> string" where
  "home_away_teams shifts_df =
     (if shifts_df = [] then Inl KeyError
      else (case unique (map teamAbbrev shifts_df) of
              home_team # away_team # _ \<Rightarrow> Inr (home_team, away_team)
            | _ \<Rightarrow> Inl IndexError))"

text \<open>The body of the loop over the events: one row in, the same row out.\<close>

definition enrich_play :: "shift list \<Rightarrow> string \<Rightarrow> string \<Rightarrow> play \<Rightarrow> py_error + enriched" where
  "enrich_play shifts_df home_team away_team p =
     (case (timeInPeriod p, periodNumber p) of
        (Some t, Some n) \<Rightarrow>
          (case get_players_on_ice shifts_df n (Some t) (Some home_team) of
             Inl e \<Rightarrow> Inl e
           | Inr home_players \<Rightarrow>
               (case get_players_on_ice shifts_df n (Some t) (Some away_team) of
                  Inl e \<Rightarrow> Inl e
                | Inr away_players \<Rightarrow>
                    Inr \<lparr>periodNumber = periodNumber p, timeInPeriod = timeInPeriod p,
                         typeCode = typeCode p, situationCode = situationCode p,
                         shootingPlayerId = shootingPlayerId p,
                         homePlayersOnIce = Some home_players,
                         awayPlayersOnIce = Some away_players,
                         homePlayersCount = int (length home_players),
                         awayPlayersCount = int (length away_players)\<rparr>))
      | _ \<Rightarrow>
          Inr \<lparr>periodNumber = periodNumber p, timeInPeriod = timeInPeriod p,
               typeCode = typeCode p, situationCode = situationCode p,
               shootingPlayerId = shootingPlayerId p,
               homePlayersOnIce = None, awayPlayersOnIce = None,
               homePlayersCount = 0, awayPlayersCount = 0\<rparr>)"

fun enrich_loop :: "shift list \<Rightarrow> string \<Rightarrow> string \<Rightarrow> play list \<Rightarrow> py_error + enriched list" where
  "enrich_loop shifts_df home_team away_team [] = Inr []"
| "enrich_loop shifts_df home_team away_team (p # ps) =
     (case enrich_play shifts_df home_team away_team p of
        Inl e \<Rightarrow> Inl e
      | Inr r \<Rightarrow>
          (case enrich_loop shifts_df home_team away_team ps of
             Inl e \<Rightarrow> Inl e
           | Inr rs \<Rightarrow> Inr (r # rs)))"

text \<open>
  The two fetches are arguments: \<open>None\<close> is a fetch that failed, for which the
  function returns \<open>None\<close>.
\<close>

definition combine_pbp_with_shifts ::
  "play list option \<Rightarrow> shift list option \<Rightarrow> py_error + enriched list option" where
  "combine_pbp_with_shifts pbp shift_data =
     (case pbp of
        None \<Rightarrow> Inr None
      | Some pbp_df \<Rightarrow>
          (case shift_data of
             None \<Rightarrow> Inr None
           | Some shifts_df \<Rightarrow>
               (case home_away_teams shifts_df of
                  Inl e \<Rightarrow> Inl e
                | Inr (home_team, away_team) \<Rightarrow>
                    (case enrich_loop shifts_df home_team away_team pbp_df of
                       Inl e \<Rightarrow> Inl e
                     | Inr rows \<Rightarrow> Inr (Some rows)))))"

section \<open>Situation filter and Corsi aggregation (\<open>player_corsi_analysis.analyze_player_corsi_5v5\<close>)\<close>

definition shot_attempt_events :: "int list" where
  "shot_attempt_events = [505, 506, 507, 508]"

definition corsi_events :: "enriched list \<Rightarrow> enriched list" where
  "corsi_events pbp_df =
     filter (\<lambda>e. typeCode e \<in> set shot_attempt_events \<and> situationCode e = 1551 \<and>
                 homePlayersCount e = 6 \<and> awayPlayersCount e = 6) pbp_df"

text \<open>
  \<open>player_stats\<close> is a dictionary from player id to three counters. Python
  dictionaries keep insertion order, which is the order of the result rows before the
  sort, so the model is an association list: a new key goes to the end.
\<close>

record pstat =
  CF :: int
  CA :: int
  TOI_events :: int

type_synonym player_stats = "(int \<times> pstat) list"

definition new_entry :: "int \<Rightarrow> player_stats \<Rightarrow> player_stats" where
  "new_entry player_id player_stats =
     (if player_id \<in> set (map fst player_stats) then player_stats
      else player_stats @ [(player_id, \<lparr>CF = 0, CA = 0, TOI_events = 0\<rparr>)])"

definition modify :: "int \<Rightarrow> (pstat \<Rightarrow> pstat) \<Rightarrow> player_stats \<Rightarrow> player_stats" where
  "modify player_id f player_stats =
     map (\<lambda>(k, v). if k = player_id then (k, f v) else (k, v)) player_stats"

text \<open>
  The body of both player loops; \<open>own_shot\<close> says whether the loop's team is the
  shooting team.
\<close>

definition credit :: "bool \<Rightarrow> player_stats \<Rightarrow> int \<Rightarrow> player_stats" where
  "credit own_shot player_stats player_id =
     (let s0 = new_entry player_id player_stats;
          s1 = (if own_shot then modify player_id (\<lambda>v. v\<lparr>CF := CF v + 1\<rparr>) s0
                else modify player_id (\<lambda>v. v\<lparr>CA := CA v + 1\<rparr>) s0)
      in modify player_id (\<lambda>v. v\<lparr>TOI_events := TOI_events v + 1\<rparr>) s1)"

text \<open>
  \<open>shooting_team\<close> for an event with a shooter id. An on-ice cell that is not a list
  (\<open>None\<close>) makes the membership test raise \<open>TypeError\<close>.
\<close>

definition shooting_team :: "int \<Rightarrow> int list option \<Rightarrow> int list option \<Rightarrow> py_error + string option" where
  "shooting_team shooter_id home_players away_players =
     (case home_players of
        None \<Rightarrow> Inl TypeError
      | Some hp \<Rightarrow>
          (if shooter_id \<in> set hp then Inr (Some ''home'')
           else (case away_players of
                   None \<Rightarrow> Inl TypeError
                 | Some ap \<Rightarrow>
                     (if shooter_id \<in> set ap then Inr (Some ''away'') else Inr None))))"

definition process_event :: "player_stats \<Rightarrow> enriched \<Rightarrow> py_error + player_stats" where
  "process_event player_stats event =
     (case shootingPlayerId event of
        None \<Rightarrow> Inr player_stats
      | Some shooter_id \<Rightarrow>
          (case shooting_team shooter_id (homePlayersOnIce event) (awayPlayersOnIce event) of
             Inl e \<Rightarrow> Inl e
           | Inr None \<Rightarrow> Inr player_stats
           | Inr (Some team) \<Rightarrow>
               (case (homePlayersOnIce event, awayPlayersOnIce event) of
                  (Some home_players, Some away_players) \<Rightarrow>
                    Inr (foldl (credit (team = ''away''))
                           (foldl (credit (team = ''home'')) player_stats home_players)
                           away_players)
                | _ \<Rightarrow> Inl TypeError)))"

fun corsi_loop :: "player_stats \<Rightarrow> enriched list \<Rightarrow> py_error + player_stats" where
  "corsi_loop player_stats [] = Inr player_stats"
| "corsi_loop player_stats (event # events) =
     (case process_event player_stats event of
        Inl e \<Rightarrow> Inl e
      | Inr player_stats' \<Rightarrow> corsi_loop player_stats' events)"

text \<open>
  Finalisation. A Python float is a binary64 number, modelled as the real number it
  denotes. \<open>nearest_double x\<close> is the binary64 number nearest to the real \<open>x\<close>, a
  tie going to the even significand: \<open>\<bar>x\<bar>\<close> is brought to the form \<open>m * 2 ^ e\<close> with
  \<open>2 ^ 52 \<le> m < 2 ^ 53\<close>, or with \<open>e = - 1074\<close> and \<open>m < 2 ^ 52\<close> in the
  subnormal range, and \<open>m\<close> is rounded to an integer. Every float operation of the
  code is the exact operation followed by this rounding. \<open>max_double\<close> is the largest
  finite float.
\<close>

definition round_half_even :: "real \<Rightarrow> int" where
  "round_half_even x =
     (let f = \<lfloor>x\<rfloor>; d = x - real_of_int f
      in if d < 1 / 2 then f else if 1 / 2 < d then f + 1 else if even f then f else f + 1)"

function scale_down :: "real \<Rightarrow> int \<Rightarrow> real \<times> int" where
  "scale_down m e = (if 2 ^ 53 \<le> m then scale_down (m / 2) (e + 1) else (m, e))"
  by pat_completeness auto
termination
proof (relation "measure (\<lambda>(m, e). nat \<lfloor>m\<rfloor>)")
  show "wf (measure (\<lambda>(m, e). nat \<lfloor>m\<rfloor>))" by simp
next
  fix m :: real and e :: int
  assume "2 ^ 53 \<le> m"
  then have "m / 2 \<le> m - 1" by simp
  then have "\<lfloor>m / 2\<rfloor> \<le> \<lfloor>m - 1\<rfloor>" by (rule floor_mono)
  moreover have "0 < \<lfloor>m\<rfloor>" using \<open>2 ^ 53 \<le> m\<close> by simp
  ultimately show "((m / 2, e + 1), (m, e)) \<in> measure (\<lambda>(m, e). nat \<lfloor>m\<rfloor>)" by simp
qed

function scale_up :: "real \<Rightarrow> int \<Rightarrow> real \<times> int" where
  "scale_up m e = (if m < 2 ^ 52 \<and> - 1074 < e then scale_up (m * 2) (e - 1) else (m, e))"
  by pat_completeness auto
termination by (relation "measure (\<lambda>(m, e). nat (e + 1074))") auto

declare scale_down.simps [simp del] scale_up.simps [simp del]

definition nearest_double :: "real \<Rightarrow> real" where
  "nearest_double x =
     (if x = 0 then 0
      else (case scale_down \<bar>x\<bar> 0 of (m, e) \<Rightarrow>
            (case scale_up m e of (m', e') \<Rightarrow>
               sgn x * real_of_int (round_half_even m') * 2 powi e')))"

definition max_double :: real where
  "max_double = (2 ^ 53 - 1) * 2 ^ 971"

text \<open>
  \<open>a / b\<close> on two Python integers raises \<open>ZeroDivisionError\<close> on a zero divisor,
  returns the float nearest to the exact quotient, and raises \<open>OverflowError\<close> where
  that is beyond the largest float. \<open>round(x, 1)\<close> on a float is correctly rounded:
  the float nearest to the tenth nearest to the exact value of \<open>x\<close>, a tie between two
  tenths going to the even one.
\<close>

definition py_truediv :: "int \<Rightarrow> int \<Rightarrow> py_error + real" where
  "py_truediv a b =
     (if b = 0 then Inl ZeroDivisionError
      else (let q = nearest_double (real_of_int a / real_of_int b)
            in if max_double < \<bar>q\<bar> then Inl OverflowError else Inr q))"

definition py_round1 :: "real \<Rightarrow> real" where
  "py_round1 x = nearest_double (real_of_int (round_half_even (x * 10)) / 10)"

text \<open>
  The player directory: \<open>fullName\<close> may be missing from an entry (the lookup has a
  default), \<open>info_team\<close> is the entry's \<open>team\<close> key.
\<close>

record pinfo =
  fullName :: "string option"
  info_team :: string

type_synonym player_dict = "int \<Rightarrow> pinfo option"

definition get_player_name :: "int \<Rightarrow> player_dict \<Rightarrow> string" where
  "get_player_name player_id player_dict =
     (case player_dict player_id of
        None \<Rightarrow> ''Unknown Player''
      | Some info \<Rightarrow> (case fullName info of None \<Rightarrow> ''Unknown Player'' | Some n \<Rightarrow> n))"

text \<open>
  A dictionary appended to \<open>results\<close>; \<open>r_playerId\<close>, \<open>r_CF\<close>, \<open>r_CA\<close> and
  \<open>r_TOI_events\<close> are its \<open>playerId\<close>, \<open>CF\<close>, \<open>CA\<close> and \<open>TOI_events\<close>
  keys.
\<close>

record result =
  r_playerId :: int
  playerName :: string
  r_CF :: int
  r_CA :: int
  CF_plus_CA :: int
  Corsi_pct :: real
  r_TOI_events :: int

text \<open>
  \<open>(cf / total_attempts * 100) if total_attempts > 0 else 0\<close>: a float division and
  a float multiplication. (A product beyond the largest float would be \<open>inf\<close>; the
  quotient of two counters, of which the loops only produce non-negative ones, is at most
  one.)
\<close>

definition corsi_pct :: "int \<Rightarrow> int \<Rightarrow> py_error + real" where
  "corsi_pct cf total_attempts =
     (if total_attempts > 0 then
        (case py_truediv cf total_attempts of
           Inl e \<Rightarrow> Inl e
         | Inr q \<Rightarrow> Inr (nearest_double (q * 100)))
      else Inr 0)"

definition make_result :: "player_dict \<Rightarrow> int \<times> pstat \<Rightarrow> py_error + result" where
  "make_result player_dict item =
     (case item of (player_id, stats) \<Rightarrow>
        (let cf = CF stats; ca = CA stats; total_attempts = cf + ca in
         case corsi_pct cf total_attempts of
           Inl e \<Rightarrow> Inl e
         | Inr pct \<Rightarrow>
             Inr \<lparr>r_playerId = player_id,
                  playerName = get_player_name player_id player_dict,
                  r_CF = cf, r_CA = ca, CF_plus_CA = total_attempts,
                  Corsi_pct = py_round1 pct,
                  r_TOI_events = TOI_events stats\<rparr>))"

fun results_loop :: "player_dict \<Rightarrow> player_stats \<Rightarrow> py_error + result list" where
  "results_loop player_dict [] = Inr []"
| "results_loop player_dict (item # items) =
     (case make_result player_dict item of
        Inl e \<Rightarrow> Inl e
      | Inr r \<Rightarrow>
          (case results_loop player_dict items of
             Inl e \<Rightarrow> Inl e
           | Inr rs \<Rightarrow> Inr (r # rs)))"

text \<open>
  \<open>sort_values('Corsi_pct', ascending=False)\<close> with pandas' default
  \<open>kind='quicksort'\<close>. The sorting routine belongs to the library, not to this
  repository, and is a parameter \<open>argsort\<close> of the model: from the key column alone it
  computes the row positions in their new order, and the frame is reordered by them.
  \<open>sorts_descending\<close> is what the library documents of it: the positions are a
  permutation and the keys come out in descending order. The library documents the
  default kind as not stable, so nothing is assumed of the order of equal keys.
\<close>

definition sort_values :: "(real list \<Rightarrow> nat list) \<Rightarrow> result list \<Rightarrow> result list" where
  "sort_values argsort corsi_df = map (\<lambda>i. corsi_df ! i) (argsort (map Corsi_pct corsi_df))"

definition sorts_descending :: "(real list \<Rightarrow> nat list) \<Rightarrow> bool" where
  "sorts_descending argsort =
     (\<forall>keys. distinct (argsort keys) \<and> set (argsort keys) = {..<length keys} \<and>
             sorted_wrt (\<lambda>a b. b \<le> a) (map (\<lambda>i. keys ! i) (argsort keys)))"

text \<open>The final frame: the result columns with \<open>team\<close> and \<open>Corsi_rel\<close>.\<close>

record corsi_row = result +
  team :: "string option"
  Corsi_rel :: "real option"

definition team_info :: "player_dict \<Rightarrow> int \<Rightarrow> string option" where
  "team_info player_dict player_id = map_option info_team (player_dict player_id)"

text \<open>
  \<open>groupby('team')['Corsi_pct'].mean()\<close> at one team label: rows without a label
  (\<open>NaN\<close>) belong to no group, and the mean is taken of the percentages of the
  group in frame order. How the library sums and divides the floats of a group, and how it
  rounds a float column to one decimal (\<open>round(series, 1)\<close>), is the library's and
  not this repository's: the two routines are the parameters \<open>group_mean\<close> and
  \<open>series_round\<close> of the model, and nothing is assumed of them. The subtraction
  between them is a float subtraction.
\<close>

definition team_averages :: "(real list \<Rightarrow> real) \<Rightarrow> (string option \<times> real) list \<Rightarrow> string \<Rightarrow> real" where
  "team_averages group_mean col t =
     group_mean (map snd (filter (\<lambda>(tm, pct). tm = Some t) col))"

definition add_team_columns ::
  "(real list \<Rightarrow> real) \<Rightarrow> (real \<Rightarrow> real) \<Rightarrow> player_dict \<Rightarrow> result list \<Rightarrow> corsi_row list" where
  "add_team_columns group_mean series_round player_dict corsi_df =
     (let col = map (\<lambda>r. (team_info player_dict (r_playerId r), Corsi_pct r)) corsi_df
      in map (\<lambda>r.
           \<lparr>r_playerId = r_playerId r, playerName = playerName r, r_CF = r_CF r,
            r_CA = r_CA r, CF_plus_CA = CF_plus_CA r, Corsi_pct = Corsi_pct r,
            r_TOI_events = r_TOI_events r,
            team = team_info player_dict (r_playerId r),
            Corsi_rel =
              (case team_info player_dict (r_playerId r) of
                 None \<Rightarrow> None
               | Some t \<Rightarrow>
                   Some (series_round
                           (nearest_double
                              (Corsi_pct r - team_averages group_mean col t))))\<rparr>) corsi_df)"

text \<open>
  The whole analysis on the rows of the enriched file. With no result row the frame has
  no \<open>Corsi_pct\<close> column and the sort raises \<open>KeyError\<close>.
\<close>

definition analyze_player_corsi_5v5 ::
  "(real list \<Rightarrow> nat list) \<Rightarrow> (real list \<Rightarrow> real) \<Rightarrow> (real \<Rightarrow> real) \<Rightarrow>
   player_dict \<Rightarrow> enriched list \<Rightarrow> py_error + corsi_row list" where
  "analyze_player_corsi_5v5 argsort group_mean series_round player_dict pbp_df =
     (case corsi_loop [] (corsi_events pbp_df) of
        Inl e \<Rightarrow> Inl e
      | Inr player_stats \<Rightarrow>
          (case results_loop player_dict player_stats of
             Inl e \<Rightarrow> Inl e
           | Inr results \<Rightarrow>
               (if results = [] then Inl KeyError
                else Inr (add_team_columns group_mean series_round player_dict
                            (sort_values argsort results)))))"

section \<open>Vocabulary of the statements\<close>

text \<open>
  \<open>clocks_ok s\<close>: both clock strings of the shift row parse to a number of seconds
  (the row is a shift interval). \<open>covers s t\<close>: they do, and second \<open>t\<close> lies in
  the interval, left-open and right-closed.
\<close>

definition covers :: "shift \<Rightarrow> int \<Rightarrow> bool" where
  "covers s t =
     (case (convert_time_to_seconds (startTime s), convert_time_to_seconds (endTime s)) of
        (Inr (Some a), Inr (Some b)) \<Rightarrow> a < t \<and> t \<le> b
      | _ \<Rightarrow> False)"

definition clocks_ok :: "shift \<Rightarrow> bool" where
  "clocks_ok s = (\<exists>a b. convert_time_to_seconds (startTime s) = Inr (Some a) \<and>
                         convert_time_to_seconds (endTime s) = Inr (Some b))"

text \<open>
  \<open>numeric cs\<close>: a non-empty string of decimal digits, with \<open>decimal cs\<close> its value.
\<close>

definition decimal :: "string \<Rightarrow> int" where
  "decimal cs = foldl (\<lambda>a c. a * 10 + (case digit_of c of Some d \<Rightarrow> d | None \<Rightarrow> 0)) 0 cs"

definition numeric :: "string \<Rightarrow> bool" where
  "numeric cs = (cs \<noteq> [] \<and> (\<forall>c\<in>set cs. digit_of c \<noteq> None))"

text \<open>
  \<open>counters player_stats p\<close>: the three counters of player \<open>p\<close> in the table, all
  zero for a player without a record. \<open>counts_match e\<close>: the count columns of an
  enriched row are the lengths of its on-ice lists (zero where there is no list), as the
  enrichment writes them.
\<close>

definition counters :: "player_stats \<Rightarrow> int \<Rightarrow> pstat" where
  "counters player_stats player_id =
     (case map_of player_stats player_id of
        None \<Rightarrow> \<lparr>CF = 0, CA = 0, TOI_events = 0\<rparr>
      | Some v \<Rightarrow> v)"

definition counts_match :: "enriched \<Rightarrow> bool" where
  "counts_match e =
     ((case homePlayersOnIce e of
         None \<Rightarrow> homePlayersCount e = 0
       | Some hp \<Rightarrow> homePlayersCount e = int (length hp)) \<and>
      (case awayPlayersOnIce e of
         None \<Rightarrow> awayPlayersCount e = 0
       | Some ap \<Rightarrow> awayPlayersCount e = int (length ap)))"

text \<open>
  An example row: a shot in period 1 with the given type code, situation code, shooter and
  on-ice lists, and counts that match the lists.
\<close>

definition example_shot :: "int \<Rightarrow> int \<Rightarrow> int option \<Rightarrow> int list \<Rightarrow> int list \<Rightarrow> enriched" where
  "example_shot code situation shooter hp ap =
     \<lparr>periodNumber = Some 1, timeInPeriod = Some ''05:00'', typeCode = code,
      situationCode = situation, shootingPlayerId = shooter,
      homePlayersOnIce = Some hp, awayPlayersOnIce = Some ap,
      homePlayersCount = int (length hp), awayPlayersCount = int (length ap)\<rparr>"

text \<open>
  Two instances of the sorting parameter. Both meet \<open>sorts_descending\<close>:
  \<open>stable_argsort\<close> keeps equal keys in their order, \<open>reversing_argsort\<close> reverses
  it. \<open>numeric_columns\<close> are the columns of a result
  row that are numbers computed from the events.
\<close>

definition stable_argsort :: "real list \<Rightarrow> nat list" where
  "stable_argsort keys = sort_key (\<lambda>i. - (keys ! i)) [0..<length keys]"

definition reversing_argsort :: "real list \<Rightarrow> nat list" where
  "reversing_argsort keys = rev (sort_key (\<lambda>i. keys ! i) [0..<length keys])"

definition numeric_columns :: "'a result_scheme \<Rightarrow> int \<times> int \<times> int \<times> int \<times> real \<times> int" where
  "numeric_columns r = (r_playerId r, r_CF r, r_CA r, CF_plus_CA r, Corsi_pct r, r_TOI_events r)"

text \<open>
  An instance of each of the two library routines of the team columns, for the examples:
  the arithmetic mean and the rounding to the nearest tenth, a tie going to the even one,
  both on the exact values.
\<close>

definition arithmetic_mean :: "real list \<Rightarrow> real" where
  "arithmetic_mean xs = sum_list xs / real (length xs)"

definition half_even_tenths :: "real \<Rightarrow> real" where
  "half_even_tenths x = real_of_int (round_half_even (x * 10)) / 10"

section \<open>Properties of the presence query\<close>

lemmas clock_eval = convert_time_to_seconds_def py_int_def strip_def is_space_def
  unsigned_value_def digit_of_def

lemma on_ice_loop_ok:
  "(\<And>s. s \<in> set rows \<Longrightarrow> shift_typeCode s \<noteq> 505 \<Longrightarrow> clocks_ok s) \<Longrightarrow>
   on_ice_loop rows (Some t) acc =
     Inr (acc @ map playerId (filter (\<lambda>s. shift_typeCode s \<noteq> 505 \<and> covers s t) rows))"
proof (induction rows arbitrary: acc)
  case Nil
  show ?case by simp
next
  case (Cons s rows)
  have IH: "\<And>acc'. on_ice_loop rows (Some t) acc' =
      Inr (acc' @ map playerId (filter (\<lambda>s. shift_typeCode s \<noteq> 505 \<and> covers s t) rows))"
    using Cons.IH Cons.prems by simp
  show ?case
  proof (cases "shift_typeCode s = 505")
    case True
    then show ?thesis using IH by simp
  next
    case False
    then have "clocks_ok s" using Cons.prems by simp
    then obtain a b where ab: "convert_time_to_seconds (startTime s) = Inr (Some a)"
      "convert_time_to_seconds (endTime s) = Inr (Some b)"
      unfolding clocks_ok_def by blast
    show ?thesis using False ab IH
      by (simp add: chained_compare_def covers_def)
  qed
qed

lemma period_shifts_team:
  "tm \<noteq> [] \<Longrightarrow> period_shifts shifts_df p (Some tm) =
     filter (\<lambda>s. period s = p \<and> teamAbbrev s = tm) shifts_df"
  by (auto simp: period_shifts_def Let_def intro: filter_cong)

lemma get_players_on_ice_ok:
  assumes "convert_time_to_seconds time_in_period = Inr (Some t)" and "tm \<noteq> []"
    and "\<forall>s\<in>set shifts_df. period s = p \<and> teamAbbrev s = tm \<and> shift_typeCode s \<noteq> 505
           \<longrightarrow> clocks_ok s"
  shows "get_players_on_ice shifts_df p time_in_period (Some tm) =
     Inr (map playerId (filter (\<lambda>s. period s = p \<and> teamAbbrev s = tm \<and>
                                     shift_typeCode s \<noteq> 505 \<and> covers s t) shifts_df))"
proof -
  have "on_ice_loop (filter (\<lambda>s. period s = p \<and> teamAbbrev s = tm) shifts_df) (Some t) [] =
      Inr ([] @ map playerId (filter (\<lambda>s. shift_typeCode s \<noteq> 505 \<and> covers s t)
          (filter (\<lambda>s. period s = p \<and> teamAbbrev s = tm) shifts_df)))"
    by (rule on_ice_loop_ok) (use assms(3) in auto)
  moreover have "filter (\<lambda>s. shift_typeCode s \<noteq> 505 \<and> covers s t)
          (filter (\<lambda>s. period s = p \<and> teamAbbrev s = tm) shifts_df) =
      filter (\<lambda>s. period s = p \<and> teamAbbrev s = tm \<and>
                                     shift_typeCode s \<noteq> 505 \<and> covers s t) shifts_df"
    by (auto intro: filter_cong)
  ultimately show ?thesis
    using assms(1,2) by (simp add: get_players_on_ice_def period_shifts_team)
qed

lemma distinct_iff_count_le1: "distinct xs \<longleftrightarrow> (\<forall>x. count_list xs x \<le> 1)"
proof (induction xs)
  case Nil
  show ?case by simp
next
  case (Cons y ys)
  show ?case
  proof
    assume d: "distinct (y # ys)"
    then have "count_list ys y = 0" by (simp add: count_list_0_iff)
    then show "\<forall>x. count_list (y # ys) x \<le> 1" using d Cons.IH by auto
  next
    assume c: "\<forall>x. count_list (y # ys) x \<le> 1"
    have "count_list ys y = 0" using c[rule_format, of y] by simp
    then have "y \<notin> set ys" by (simp add: count_list_0_iff)
    moreover have "\<forall>x. count_list ys x \<le> 1"
    proof
      fix x show "count_list ys x \<le> 1" using c[rule_format, of x] by (simp split: if_splits)
    qed
    ultimately show "distinct (y # ys)" using Cons.IH by simp
  qed
qed

lemma count_list_map_filter:
  "count_list (map f (filter P xs)) v = length (filter (\<lambda>s. f s = v \<and> P s) xs)"
  by (induction xs) auto

text \<open>
  C1 (boundary law). Take an event clock that parses to second \<open>t\<close>, a team and a
  period whose shift rows (goal markers apart) are intervals. Then the query returns,
  and a player is in its result iff one of the player's intervals in that team and period
  has \<open>start < t \<le> end\<close>: the start second is not covered, the end second is.
\<close>

theorem boundary_law:
  assumes "convert_time_to_seconds time_in_period = Inr (Some t)"
    and "tm \<noteq> []"
    and "\<forall>s\<in>set shifts_df. period s = p \<and> teamAbbrev s = tm \<and> shift_typeCode s \<noteq> 505
           \<longrightarrow> clocks_ok s"
  shows "\<exists>players. get_players_on_ice shifts_df p time_in_period (Some tm) = Inr players \<and>
     (\<forall>pid. pid \<in> set players \<longleftrightarrow>
        (\<exists>s\<in>set shifts_df. \<exists>a b.
           playerId s = pid \<and> period s = p \<and> teamAbbrev s = tm \<and> shift_typeCode s \<noteq> 505 \<and>
           convert_time_to_seconds (startTime s) = Inr (Some a) \<and>
           convert_time_to_seconds (endTime s) = Inr (Some b) \<and> a < t \<and> t \<le> b))"
proof -
  let ?Q = "\<lambda>s. period s = p \<and> teamAbbrev s = tm \<and> shift_typeCode s \<noteq> 505 \<and> covers s t"
  have eq: "get_players_on_ice shifts_df p time_in_period (Some tm) =
      Inr (map playerId (filter ?Q shifts_df))"
    using assms by (rule get_players_on_ice_ok)
  have cov: "\<And>s. covers s t \<longleftrightarrow> (\<exists>a b. convert_time_to_seconds (startTime s) = Inr (Some a) \<and>
           convert_time_to_seconds (endTime s) = Inr (Some b) \<and> a < t \<and> t \<le> b)"
  proof -
    fix s show "covers s t \<longleftrightarrow> (\<exists>a b. convert_time_to_seconds (startTime s) = Inr (Some a) \<and>
           convert_time_to_seconds (endTime s) = Inr (Some b) \<and> a < t \<and> t \<le> b)"
      by (cases "convert_time_to_seconds (startTime s)";
          cases "convert_time_to_seconds (endTime s)")
         (auto simp: covers_def split: option.splits)
  qed
  have "\<forall>pid. pid \<in> set (map playerId (filter ?Q shifts_df)) \<longleftrightarrow>
        (\<exists>s\<in>set shifts_df. \<exists>a b.
           playerId s = pid \<and> period s = p \<and> teamAbbrev s = tm \<and> shift_typeCode s \<noteq> 505 \<and>
           convert_time_to_seconds (startTime s) = Inr (Some a) \<and>
           convert_time_to_seconds (endTime s) = Inr (Some b) \<and> a < t \<and> t \<le> b)"
    unfolding cov by auto
  with eq show ?thesis by blast
qed

text \<open>The interval [0, 60] of the specification: absent at 0, present at 60, absent at 61.\<close>

theorem boundary_law_witness:
  "(\<exists>players. get_players_on_ice
       [\<lparr>playerId = 7, teamAbbrev = ''NJD'', period = 1, startTime = Some ''00:00'',
         endTime = Some ''01:00'', shift_typeCode = 517\<rparr>] 1 (Some ''00:00'') (Some ''NJD'')
       = Inr players \<and> 7 \<notin> set players) \<and>
   (\<exists>players. get_players_on_ice
       [\<lparr>playerId = 7, teamAbbrev = ''NJD'', period = 1, startTime = Some ''00:00'',
         endTime = Some ''01:00'', shift_typeCode = 517\<rparr>] 1 (Some ''01:00'') (Some ''NJD'')
       = Inr players \<and> 7 \<in> set players) \<and>
   (\<exists>players. get_players_on_ice
       [\<lparr>playerId = 7, teamAbbrev = ''NJD'', period = 1, startTime = Some ''00:00'',
         endTime = Some ''01:00'', shift_typeCode = 517\<rparr>] 1 (Some ''01:01'') (Some ''NJD'')
       = Inr players \<and> 7 \<notin> set players)"
proof -
  let ?sh = "\<lparr>playerId = 7, teamAbbrev = ''NJD'', period = 1, startTime = Some ''00:00'',
         endTime = Some ''01:00'', shift_typeCode = 517\<rparr>"
  have c: "\<forall>s\<in>set [?sh]. period s = 1 \<and> teamAbbrev s = ''NJD'' \<and> shift_typeCode s \<noteq> 505
           \<longrightarrow> clocks_ok s"
    by (simp add: clocks_ok_def clock_eval)
  have n: "''NJD'' \<noteq> []" by simp
  have t0: "convert_time_to_seconds (Some ''00:00'') = Inr (Some 0)" by (simp add: clock_eval)
  have t60: "convert_time_to_seconds (Some ''01:00'') = Inr (Some 60)" by (simp add: clock_eval)
  have t61: "convert_time_to_seconds (Some ''01:01'') = Inr (Some 61)" by (simp add: clock_eval)
  have s0: "convert_time_to_seconds (startTime ?sh) = Inr (Some 0)" by (simp add: clock_eval)
  have s1: "convert_time_to_seconds (endTime ?sh) = Inr (Some 60)" by (simp add: clock_eval)
  have "\<exists>players. get_players_on_ice [?sh] 1 (Some ''00:00'') (Some ''NJD'') = Inr players \<and>
      7 \<notin> set players"
    using boundary_law[OF t0 n c] s0 s1 by auto
  moreover have "\<exists>players. get_players_on_ice [?sh] 1 (Some ''01:00'') (Some ''NJD'') = Inr players \<and>
      7 \<in> set players"
    using boundary_law[OF t60 n c] s0 s1 by auto
  moreover have "\<exists>players. get_players_on_ice [?sh] 1 (Some ''01:01'') (Some ''NJD'') = Inr players \<and>
      7 \<notin> set players"
    using boundary_law[OF t61 n c] s0 s1 by auto
  ultimately show ?thesis by blast
qed


text \<open>
  C9 (each player at most once) fails on the code. The query appends one entry per
  matching shift row and removes no duplicate: a player with two overlapping rows that
  both cover the second is listed twice. The list is meant to hold the players on the
  ice: the enrichment stores its length as the number of players, and the analysis reads
  a length of 6 as five skaters and a goalie. The double entry is a defect of the code.
\<close>

theorem presence_duplicates:
  "get_players_on_ice
     [\<lparr>playerId = 7, teamAbbrev = ''NJD'', period = 1, startTime = Some ''00:00'',
       endTime = Some ''01:00'', shift_typeCode = 517\<rparr>,
      \<lparr>playerId = 7, teamAbbrev = ''NJD'', period = 1, startTime = Some ''00:30'',
       endTime = Some ''01:30'', shift_typeCode = 517\<rparr>]
     1 (Some ''00:45'') (Some ''NJD'') = Inr [7, 7] \<and> \<not> distinct [7, 7 :: int]"
  by (simp add: get_players_on_ice_def period_shifts_def chained_compare_def clock_eval)

text \<open>
  What the query returns in general. Under the hypotheses of the boundary law it returns
  the player ids of the covering rows in the order of the shift chart, one entry per row:
  a player id occurs as often as the player has covering rows in the team and period, so
  the result is free of duplicates exactly on the charts where no player has two covering
  rows.
\<close>

theorem presence_multiplicity:
  assumes "convert_time_to_seconds time_in_period = Inr (Some t)"
    and "tm \<noteq> []"
    and "\<forall>s\<in>set shifts_df. period s = p \<and> teamAbbrev s = tm \<and> shift_typeCode s \<noteq> 505
           \<longrightarrow> clocks_ok s"
  shows "\<exists>players. get_players_on_ice shifts_df p time_in_period (Some tm) = Inr players \<and>
     players = map playerId (filter (\<lambda>s. period s = p \<and> teamAbbrev s = tm \<and>
                                     shift_typeCode s \<noteq> 505 \<and> covers s t) shifts_df) \<and>
     (\<forall>pid. count_list players pid =
        length (filter (\<lambda>s. playerId s = pid \<and> period s = p \<and> teamAbbrev s = tm \<and>
                              shift_typeCode s \<noteq> 505 \<and> covers s t) shifts_df)) \<and>
     (distinct players \<longleftrightarrow>
        (\<forall>pid. length (filter (\<lambda>s. playerId s = pid \<and> period s = p \<and> teamAbbrev s = tm \<and>
                              shift_typeCode s \<noteq> 505 \<and> covers s t) shifts_df) \<le> 1))"
proof -
  let ?Q = "\<lambda>s. period s = p \<and> teamAbbrev s = tm \<and> shift_typeCode s \<noteq> 505 \<and> covers s t"
  let ?ps = "map playerId (filter ?Q shifts_df)"
  have eq: "get_players_on_ice shifts_df p time_in_period (Some tm) = Inr ?ps"
    using assms by (rule get_players_on_ice_ok)
  have cnt: "\<And>pid. count_list ?ps pid = length (filter (\<lambda>s. playerId s = pid \<and> ?Q s) shifts_df)"
    by (rule count_list_map_filter)
  have "distinct ?ps \<longleftrightarrow> (\<forall>pid. length (filter (\<lambda>s. playerId s = pid \<and> ?Q s) shifts_df) \<le> 1)"
    unfolding distinct_iff_count_le1 cnt ..
  with eq cnt show ?thesis by simp
qed

theorem presence_multiplicity_witness:
  "\<exists>players. get_players_on_ice
     [\<lparr>playerId = 7, teamAbbrev = ''NJD'', period = 1, startTime = Some ''00:00'',
       endTime = Some ''01:00'', shift_typeCode = 517\<rparr>,
      \<lparr>playerId = 8, teamAbbrev = ''NJD'', period = 1, startTime = Some ''00:10'',
       endTime = Some ''00:50'', shift_typeCode = 517\<rparr>,
      \<lparr>playerId = 7, teamAbbrev = ''NJD'', period = 1, startTime = Some ''00:30'',
       endTime = Some ''01:30'', shift_typeCode = 517\<rparr>]
     1 (Some ''00:45'') (Some ''NJD'') = Inr players \<and>
     count_list players 7 = 2 \<and> count_list players 8 = 1 \<and> \<not> distinct players"
proof -
  let ?rows = "[\<lparr>playerId = 7, teamAbbrev = ''NJD'', period = 1, startTime = Some ''00:00'',
       endTime = Some ''01:00'', shift_typeCode = 517\<rparr>,
      \<lparr>playerId = 8, teamAbbrev = ''NJD'', period = 1, startTime = Some ''00:10'',
       endTime = Some ''00:50'', shift_typeCode = 517\<rparr>,
      \<lparr>playerId = 7, teamAbbrev = ''NJD'', period = 1, startTime = Some ''00:30'',
       endTime = Some ''01:30'', shift_typeCode = 517\<rparr>]"
  have t: "convert_time_to_seconds (Some ''00:45'') = Inr (Some 45)" by (simp add: clock_eval)
  have n: "''NJD'' \<noteq> []" by simp
  have c: "\<forall>s\<in>set ?rows. period s = 1 \<and> teamAbbrev s = ''NJD'' \<and> shift_typeCode s \<noteq> 505
           \<longrightarrow> clocks_ok s"
    by (simp add: clocks_ok_def clock_eval)
  show ?thesis
    using presence_multiplicity[OF t n c] by (simp add: covers_def clock_eval)
qed

section \<open>Properties of the enrichment\<close>

lemma enrich_play_shape:
  assumes "enrich_play shifts_df h a p = Inr r"
  shows "play.truncate r = p"
    and "periodNumber p = None \<or> timeInPeriod p = None \<Longrightarrow>
         homePlayersOnIce r = None \<and> awayPlayersOnIce r = None \<and>
         homePlayersCount r = 0 \<and> awayPlayersCount r = 0"
  using assms
  by (auto simp: enrich_play_def play.truncate_def split: option.splits sum.splits)

lemma enrich_play_present:
  assumes "enrich_play shifts_df h a p = Inr r"
    and "periodNumber p = Some n \<and> timeInPeriod p = Some c"
  shows "\<exists>home_players away_players.
     get_players_on_ice shifts_df n (Some c) (Some h) = Inr home_players \<and>
     get_players_on_ice shifts_df n (Some c) (Some a) = Inr away_players \<and>
     homePlayersOnIce r = Some home_players \<and> awayPlayersOnIce r = Some away_players \<and>
     homePlayersCount r = int (length home_players) \<and>
     awayPlayersCount r = int (length away_players)"
  using assms by (auto simp: enrich_play_def split: sum.splits)

lemma enrich_loop_pointwise:
  "enrich_loop shifts_df h a ps = Inr rows \<Longrightarrow>
   length rows = length ps \<and> (\<forall>k<length ps. enrich_play shifts_df h a (ps ! k) = Inr (rows ! k))"
proof (induction ps arbitrary: rows)
  case Nil
  then show ?case by simp
next
  case (Cons p ps)
  from Cons.prems obtain r rs where r: "enrich_play shifts_df h a p = Inr r"
    and rs: "enrich_loop shifts_df h a ps = Inr rs" and rows: "rows = r # rs"
    by (auto split: sum.splits)
  from Cons.IH[OF rs] have len: "length rs = length ps"
    and pt: "\<forall>k<length ps. enrich_play shifts_df h a (ps ! k) = Inr (rs ! k)" by simp_all
  show ?case
  proof (intro conjI allI impI)
    show "length rows = length (p # ps)" using len rows by simp
  next
    fix k assume "k < length (p # ps)"
    then show "enrich_play shifts_df h a ((p # ps) ! k) = Inr (rows ! k)"
      using r pt rows by (cases k) simp_all
  qed
qed

lemma get_players_on_ice_returns:
  assumes "convert_time_to_seconds time_in_period = Inr (Some t)"
    and "\<forall>s\<in>set shifts_df. shift_typeCode s \<noteq> 505 \<longrightarrow> clocks_ok s"
  shows "\<exists>players. get_players_on_ice shifts_df p time_in_period tm = Inr players"
proof -
  have sub: "set (period_shifts shifts_df p tm) \<subseteq> set shifts_df"
    by (auto simp: period_shifts_def Let_def split: option.splits)
  have "on_ice_loop (period_shifts shifts_df p tm) (Some t) [] =
      Inr ([] @ map playerId (filter (\<lambda>s. shift_typeCode s \<noteq> 505 \<and> covers s t)
             (period_shifts shifts_df p tm)))"
    by (rule on_ice_loop_ok) (use assms(2) sub in auto)
  then show ?thesis using assms(1) by (simp add: get_players_on_ice_def)
qed

lemma enrich_play_returns:
  assumes "\<forall>s\<in>set shifts_df. shift_typeCode s \<noteq> 505 \<longrightarrow> clocks_ok s"
    and "\<forall>c. timeInPeriod p = Some c \<longrightarrow> (\<exists>t. convert_time_to_seconds (Some c) = Inr (Some t))"
  shows "\<exists>r. enrich_play shifts_df h a p = Inr r"
proof (cases "timeInPeriod p")
  case None
  then show ?thesis by (simp add: enrich_play_def)
next
  case (Some c)
  show ?thesis
  proof (cases "periodNumber p")
    case None
    then show ?thesis using Some by (simp add: enrich_play_def)
  next
    case (Some n)
    from assms(2) \<open>timeInPeriod p = Some c\<close> obtain t
      where t: "convert_time_to_seconds (Some c) = Inr (Some t)" by blast
    from get_players_on_ice_returns[OF t assms(1)]
    obtain hp where hp: "get_players_on_ice shifts_df n (Some c) (Some h) = Inr hp" by blast
    from get_players_on_ice_returns[OF t assms(1)]
    obtain ap where ap: "get_players_on_ice shifts_df n (Some c) (Some a) = Inr ap" by blast
    show ?thesis using Some \<open>timeInPeriod p = Some c\<close> hp ap by (simp add: enrich_play_def)
  qed
qed

lemma enrich_loop_returns:
  assumes "\<forall>s\<in>set shifts_df. shift_typeCode s \<noteq> 505 \<longrightarrow> clocks_ok s"
  shows "\<forall>p\<in>set ps. \<forall>c. timeInPeriod p = Some c \<longrightarrow>
            (\<exists>t. convert_time_to_seconds (Some c) = Inr (Some t)) \<Longrightarrow>
         \<exists>rows. enrich_loop shifts_df h a ps = Inr rows"
proof (induction ps)
  case Nil
  show ?case by simp
next
  case (Cons p ps)
  from enrich_play_returns[OF assms, of p h a] Cons.prems
  obtain r where "enrich_play shifts_df h a p = Inr r" by auto
  moreover from Cons obtain rs where "enrich_loop shifts_df h a ps = Inr rs" by auto
  ultimately show ?case by simp
qed

text \<open>
  C5, as stated, fails where it says what an event without ice context carries. The
  on-ice columns are initialised to \<open>None\<close> and the loop skips every event whose
  period or clock is missing, so such an event carries no on-ice list at all, which is
  not an empty list; and with a shift fetch that failed the enrichment returns no frame,
  whatever the events.
\<close>

theorem absent_context_is_none:
  "combine_pbp_with_shifts
     (Some [\<lparr>periodNumber = Some 1, timeInPeriod = None, typeCode = 520,
             situationCode = 1551, shootingPlayerId = None\<rparr>])
     (Some [\<lparr>playerId = 7, teamAbbrev = ''NJD'', period = 1, startTime = Some ''00:00'',
             endTime = Some ''01:00'', shift_typeCode = 517\<rparr>,
            \<lparr>playerId = 9, teamAbbrev = ''PIT'', period = 1, startTime = Some ''00:00'',
             endTime = Some ''01:00'', shift_typeCode = 517\<rparr>]) =
   Inr (Some [\<lparr>periodNumber = Some 1, timeInPeriod = None, typeCode = 520,
               situationCode = 1551, shootingPlayerId = None,
               homePlayersOnIce = None, awayPlayersOnIce = None,
               homePlayersCount = 0, awayPlayersCount = 0\<rparr>]) \<and>
   (None :: int list option) \<noteq> Some [] \<and>
   combine_pbp_with_shifts
     (Some [\<lparr>periodNumber = Some 1, timeInPeriod = None, typeCode = 520,
             situationCode = 1551, shootingPlayerId = None\<rparr>])
     None = Inr None"
  by (simp add: combine_pbp_with_shifts_def home_away_teams_def unique_def enrich_play_def)

text \<open>
  C5, amended. Whenever the enrichment returns a frame, there are as many rows as
  events and row \<open>k\<close> is event \<open>k\<close> with the four on-ice columns added. An event
  without period or clock keeps the columns' initial values: no on-ice list
  (\<open>None\<close>) and both counts zero. Every other event carries the lists of the presence
  query for the first and the second team of the shift chart, and their lengths. The
  enrichment does return a frame when the shift chart names two teams, its shift rows are
  intervals and every event clock that is present parses.
\<close>

theorem enrichment_one_to_one:
  "(combine_pbp_with_shifts (Some pbp_df) shift_data = Inr (Some rows) \<longrightarrow>
      length rows = length pbp_df \<and>
      (\<exists>shifts home_team away_team.
         shift_data = Some shifts \<and> home_away_teams shifts = Inr (home_team, away_team) \<and>
         (\<forall>k<length pbp_df.
            play.truncate (rows ! k) = pbp_df ! k \<and>
            (periodNumber (pbp_df ! k) = None \<or> timeInPeriod (pbp_df ! k) = None \<longrightarrow>
               homePlayersOnIce (rows ! k) = None \<and> awayPlayersOnIce (rows ! k) = None \<and>
               homePlayersCount (rows ! k) = 0 \<and> awayPlayersCount (rows ! k) = 0) \<and>
            (\<forall>n c. periodNumber (pbp_df ! k) = Some n \<and> timeInPeriod (pbp_df ! k) = Some c \<longrightarrow>
               (\<exists>home_players away_players.
                  get_players_on_ice shifts n (Some c) (Some home_team) = Inr home_players \<and>
                  get_players_on_ice shifts n (Some c) (Some away_team) = Inr away_players \<and>
                  homePlayersOnIce (rows ! k) = Some home_players \<and>
                  awayPlayersOnIce (rows ! k) = Some away_players \<and>
                  homePlayersCount (rows ! k) = int (length home_players) \<and>
                  awayPlayersCount (rows ! k) = int (length away_players)))))) \<and>
   ((\<exists>teams. home_away_teams shifts_df = Inr teams) \<and>
    (\<forall>s\<in>set shifts_df. shift_typeCode s \<noteq> 505 \<longrightarrow> clocks_ok s) \<and>
    (\<forall>p\<in>set pbp_df. \<forall>c. timeInPeriod p = Some c \<longrightarrow>
        (\<exists>t. convert_time_to_seconds (Some c) = Inr (Some t))) \<longrightarrow>
    (\<exists>out. combine_pbp_with_shifts (Some pbp_df) (Some shifts_df) = Inr (Some out)))"
proof (intro conjI impI)
  assume c: "combine_pbp_with_shifts (Some pbp_df) shift_data = Inr (Some rows)"
  then obtain shifts h a where sd: "shift_data = Some shifts"
    and teams: "home_away_teams shifts = Inr (h, a)"
    and loop: "enrich_loop shifts h a pbp_df = Inr rows"
    by (auto simp: combine_pbp_with_shifts_def split: option.splits sum.splits prod.splits)
  note pw = enrich_loop_pointwise[OF loop]
  show "length rows = length pbp_df" using pw by simp
  have "\<forall>k<length pbp_df.
            play.truncate (rows ! k) = pbp_df ! k \<and>
            (periodNumber (pbp_df ! k) = None \<or> timeInPeriod (pbp_df ! k) = None \<longrightarrow>
               homePlayersOnIce (rows ! k) = None \<and> awayPlayersOnIce (rows ! k) = None \<and>
               homePlayersCount (rows ! k) = 0 \<and> awayPlayersCount (rows ! k) = 0) \<and>
            (\<forall>n c. periodNumber (pbp_df ! k) = Some n \<and> timeInPeriod (pbp_df ! k) = Some c \<longrightarrow>
               (\<exists>home_players away_players.
                  get_players_on_ice shifts n (Some c) (Some h) = Inr home_players \<and>
                  get_players_on_ice shifts n (Some c) (Some a) = Inr away_players \<and>
                  homePlayersOnIce (rows ! k) = Some home_players \<and>
                  awayPlayersOnIce (rows ! k) = Some away_players \<and>
                  homePlayersCount (rows ! k) = int (length home_players) \<and>
                  awayPlayersCount (rows ! k) = int (length away_players)))"
  proof (intro allI impI)
    fix k assume "k < length pbp_df"
    then have e: "enrich_play shifts h a (pbp_df ! k) = Inr (rows ! k)" using pw by simp
    from enrich_play_shape[OF e] enrich_play_present[OF e]
    show "play.truncate (rows ! k) = pbp_df ! k \<and>
            (periodNumber (pbp_df ! k) = None \<or> timeInPeriod (pbp_df ! k) = None \<longrightarrow>
               homePlayersOnIce (rows ! k) = None \<and> awayPlayersOnIce (rows ! k) = None \<and>
               homePlayersCount (rows ! k) = 0 \<and> awayPlayersCount (rows ! k) = 0) \<and>
            (\<forall>n c. periodNumber (pbp_df ! k) = Some n \<and> timeInPeriod (pbp_df ! k) = Some c \<longrightarrow>
               (\<exists>home_players away_players.
                  get_players_on_ice shifts n (Some c) (Some h) = Inr home_players \<and>
                  get_players_on_ice shifts n (Some c) (Some a) = Inr away_players \<and>
                  homePlayersOnIce (rows ! k) = Some home_players \<and>
                  awayPlayersOnIce (rows ! k) = Some away_players \<and>
                  homePlayersCount (rows ! k) = int (length home_players) \<and>
                  awayPlayersCount (rows ! k) = int (length away_players)))"
      by blast
  qed
  with sd teams show "\<exists>shifts home_team away_team.
         shift_data = Some shifts \<and> home_away_teams shifts = Inr (home_team, away_team) \<and>
         (\<forall>k<length pbp_df.
            play.truncate (rows ! k) = pbp_df ! k \<and>
            (periodNumber (pbp_df ! k) = None \<or> timeInPeriod (pbp_df ! k) = None \<longrightarrow>
               homePlayersOnIce (rows ! k) = None \<and> awayPlayersOnIce (rows ! k) = None \<and>
               homePlayersCount (rows ! k) = 0 \<and> awayPlayersCount (rows ! k) = 0) \<and>
            (\<forall>n c. periodNumber (pbp_df ! k) = Some n \<and> timeInPeriod (pbp_df ! k) = Some c \<longrightarrow>
               (\<exists>home_players away_players.
                  get_players_on_ice shifts n (Some c) (Some home_team) = Inr home_players \<and>
                  get_players_on_ice shifts n (Some c) (Some away_team) = Inr away_players \<and>
                  homePlayersOnIce (rows ! k) = Some home_players \<and>
                  awayPlayersOnIce (rows ! k) = Some away_players \<and>
                  homePlayersCount (rows ! k) = int (length home_players) \<and>
                  awayPlayersCount (rows ! k) = int (length away_players))))"
    by (intro exI conjI)
next
  assume wf: "(\<exists>teams. home_away_teams shifts_df = Inr teams) \<and>
    (\<forall>s\<in>set shifts_df. shift_typeCode s \<noteq> 505 \<longrightarrow> clocks_ok s) \<and>
    (\<forall>p\<in>set pbp_df. \<forall>c. timeInPeriod p = Some c \<longrightarrow>
        (\<exists>t. convert_time_to_seconds (Some c) = Inr (Some t)))"
  then obtain h a where t: "home_away_teams shifts_df = Inr (h, a)" by (cases "home_away_teams shifts_df") auto
  from wf enrich_loop_returns[of shifts_df pbp_df h a]
  obtain out where "enrich_loop shifts_df h a pbp_df = Inr out" by blast
  with t show "\<exists>out. combine_pbp_with_shifts (Some pbp_df) (Some shifts_df) = Inr (Some out)"
    by (simp add: combine_pbp_with_shifts_def)
qed

theorem enrichment_one_to_one_witness:
  "\<exists>rows. combine_pbp_with_shifts
       (Some [\<lparr>periodNumber = Some 1, timeInPeriod = None, typeCode = 520,
               situationCode = 1551, shootingPlayerId = None\<rparr>,
              \<lparr>periodNumber = None, timeInPeriod = Some ''00:30'', typeCode = 516,
               situationCode = 1551, shootingPlayerId = None\<rparr>,
              \<lparr>periodNumber = Some 1, timeInPeriod = Some ''00:30'', typeCode = 506,
               situationCode = 1551, shootingPlayerId = Some 7\<rparr>])
       (Some [\<lparr>playerId = 7, teamAbbrev = ''NJD'', period = 1, startTime = Some ''00:00'',
               endTime = Some ''01:00'', shift_typeCode = 517\<rparr>,
              \<lparr>playerId = 9, teamAbbrev = ''PIT'', period = 1, startTime = Some ''00:00'',
               endTime = Some ''01:00'', shift_typeCode = 517\<rparr>]) = Inr (Some rows) \<and>
     length rows = 3 \<and>
     play.truncate (rows ! 2) =
       \<lparr>periodNumber = Some 1, timeInPeriod = Some ''00:30'', typeCode = 506,
        situationCode = 1551, shootingPlayerId = Some 7\<rparr> \<and>
     homePlayersOnIce (rows ! 0) = None \<and> homePlayersCount (rows ! 0) = 0 \<and>
     awayPlayersOnIce (rows ! 1) = None \<and> awayPlayersCount (rows ! 1) = 0 \<and>
     homePlayersOnIce (rows ! 2) = Some [7] \<and> homePlayersCount (rows ! 2) = 1 \<and>
     awayPlayersOnIce (rows ! 2) = Some [9] \<and> awayPlayersCount (rows ! 2) = 1"
proof -
  let ?pbp = "[\<lparr>periodNumber = Some 1, timeInPeriod = None, typeCode = 520,
               situationCode = 1551, shootingPlayerId = None\<rparr>,
              \<lparr>periodNumber = None, timeInPeriod = Some ''00:30'', typeCode = 516,
               situationCode = 1551, shootingPlayerId = None\<rparr>,
              \<lparr>periodNumber = Some 1, timeInPeriod = Some ''00:30'', typeCode = 506,
               situationCode = 1551, shootingPlayerId = Some 7\<rparr>]"
  let ?sh = "[\<lparr>playerId = 7, teamAbbrev = ''NJD'', period = 1, startTime = Some ''00:00'',
               endTime = Some ''01:00'', shift_typeCode = 517\<rparr>,
              \<lparr>playerId = 9, teamAbbrev = ''PIT'', period = 1, startTime = Some ''00:00'',
               endTime = Some ''01:00'', shift_typeCode = 517\<rparr>]"
  have wf: "(\<exists>teams. home_away_teams ?sh = Inr teams) \<and>
    (\<forall>s\<in>set ?sh. shift_typeCode s \<noteq> 505 \<longrightarrow> clocks_ok s) \<and>
    (\<forall>p\<in>set ?pbp. \<forall>c. timeInPeriod p = Some c \<longrightarrow>
        (\<exists>t. convert_time_to_seconds (Some c) = Inr (Some t)))"
    by (simp add: home_away_teams_def unique_def clocks_ok_def clock_eval)
  from enrichment_one_to_one[where pbp_df = ?pbp and shifts_df = ?sh] wf
  obtain out where out: "combine_pbp_with_shifts (Some ?pbp) (Some ?sh) = Inr (Some out)"
    by blast
  note w = enrichment_one_to_one[where pbp_df = ?pbp and shift_data = "Some ?sh" and rows = out,
      THEN conjunct1, THEN mp, OF out]
  from w[THEN conjunct1] have len: "length out = length ?pbp" .
  from w[THEN conjunct2]
  obtain shifts h a where sd: "Some ?sh = Some shifts"
    and teams: "home_away_teams shifts = Inr (h, a)"
    and pt: "\<forall>k<length ?pbp.
         play.truncate (out ! k) = ?pbp ! k \<and>
         (periodNumber (?pbp ! k) = None \<or> timeInPeriod (?pbp ! k) = None \<longrightarrow>
            homePlayersOnIce (out ! k) = None \<and> awayPlayersOnIce (out ! k) = None \<and>
            homePlayersCount (out ! k) = 0 \<and> awayPlayersCount (out ! k) = 0) \<and>
         (\<forall>n c. periodNumber (?pbp ! k) = Some n \<and> timeInPeriod (?pbp ! k) = Some c \<longrightarrow>
            (\<exists>home_players away_players.
               get_players_on_ice shifts n (Some c) (Some h) = Inr home_players \<and>
               get_players_on_ice shifts n (Some c) (Some a) = Inr away_players \<and>
               homePlayersOnIce (out ! k) = Some home_players \<and>
               awayPlayersOnIce (out ! k) = Some away_players \<and>
               homePlayersCount (out ! k) = int (length home_players) \<and>
               awayPlayersCount (out ! k) = int (length away_players)))"
    by (elim exE conjE)
  have sh: "shifts = ?sh" using sd by simp
  have ha: "h = ''NJD''" "a = ''PIT''"
    using teams unfolding sh by (simp_all add: home_away_teams_def unique_def)
  have "length out = 3" using len by simp
  moreover have "play.truncate (out ! 2) = ?pbp ! 2" using pt by simp
  moreover have "homePlayersOnIce (out ! 0) = None \<and> homePlayersCount (out ! 0) = 0"
    using pt[rule_format, of 0] by simp
  moreover have "awayPlayersOnIce (out ! 1) = None \<and> awayPlayersCount (out ! 1) = 0"
    using pt[rule_format, of 1] by simp
  moreover have "homePlayersOnIce (out ! 2) = Some [7] \<and> homePlayersCount (out ! 2) = 1 \<and>
     awayPlayersOnIce (out ! 2) = Some [9] \<and> awayPlayersCount (out ! 2) = 1"
  proof -
    have two: "(2::nat) < length ?pbp" by simp
    from pt[rule_format, OF two, THEN conjunct2, THEN conjunct2, rule_format, of 1 "''00:30''"]
    obtain hp ap where
      g1: "get_players_on_ice shifts 1 (Some ''00:30'') (Some h) = Inr hp" and
      g2: "get_players_on_ice shifts 1 (Some ''00:30'') (Some a) = Inr ap" and
      r: "homePlayersOnIce (out ! 2) = Some hp" "awayPlayersOnIce (out ! 2) = Some ap"
         "homePlayersCount (out ! 2) = int (length hp)"
         "awayPlayersCount (out ! 2) = int (length ap)"
      by auto
    have "get_players_on_ice ?sh 1 (Some ''00:30'') (Some ''NJD'') = Inr [7]"
      by (simp add: get_players_on_ice_def period_shifts_def chained_compare_def clock_eval)
    with g1 have hp: "hp = [7]" unfolding sh ha by simp
    have "get_players_on_ice ?sh 1 (Some ''00:30'') (Some ''PIT'') = Inr [9]"
      by (simp add: get_players_on_ice_def period_shifts_def chained_compare_def clock_eval)
    with g2 have ap: "ap = [9]" unfolding sh ha by simp
    from r hp ap show ?thesis by simp
  qed
  ultimately show ?thesis using out by simp
qed

section \<open>Properties of the time converter\<close>

text \<open>
  \<open>int\<close> strips a tab, a vertical tab and a form feed around the digits, and not the
  separator \<open>0x1C\<close>: a clock with that character before the minutes raises
  \<open>ValueError\<close>.
\<close>

lemma int_whitespace:
  "py_int [CHR 0x09, CHR ''5'', CHR 0x0B, CHR 0x0C] = Inr 5"
  "py_int [CHR 0x1C, CHR ''5''] = Inl ValueError"
  "convert_time_to_seconds (Some [CHR 0x1C, CHR ''5'', CHR '':'', CHR ''0'', CHR ''0'']) =
     Inl ValueError"
  by (simp_all add: convert_time_to_seconds_def py_int_def strip_def is_space_def
      unsigned_value_def digit_of_def)

text \<open>
  What holds of C6: a missing or empty clock gives the absent value, two numeric fields
  give \<open>minutes * 60 + seconds\<close>, and a string without exactly two fields gives the
  absent value.
\<close>

lemma digit_not_special:
  "digit_of c \<noteq> None \<Longrightarrow> \<not> is_space c \<and> c \<noteq> CHR ''-'' \<and> c \<noteq> CHR ''+'' \<and> c \<noteq> CHR '':''"
  by (auto simp: digit_of_def is_space_def split: if_splits)

lemma digits_value_digits:
  "\<forall>c\<in>set cs. digit_of c \<noteq> None \<Longrightarrow>
   digits_value acc cs =
     Some (foldl (\<lambda>a c. a * 10 + (case digit_of c of Some d \<Rightarrow> d | None \<Rightarrow> 0)) acc cs)"
  by (induction acc cs rule: digits_value.induct) auto

lemma strip_numeric: "numeric cs \<Longrightarrow> strip cs = cs"
proof -
  assume n: "numeric cs"
  then obtain c cs' where cs: "cs = c # cs'" by (cases cs) (auto simp: numeric_def)
  have 1: "dropWhile is_space cs = cs"
    using n cs digit_not_special[of c] by (simp add: numeric_def)
  from n have "rev cs \<noteq> []" by (simp add: numeric_def)
  then obtain d ds where r: "rev cs = d # ds" by (cases "rev cs") auto
  then have "d \<in> set cs" by (metis list.set_intros(1) set_rev)
  then have "\<not> is_space d" using n digit_not_special[of d] by (simp add: numeric_def)
  then have "dropWhile is_space (rev cs) = rev cs" using r by simp
  with 1 show ?thesis by (simp add: strip_def)
qed

lemma py_int_numeric: "numeric cs \<Longrightarrow> py_int cs = Inr (decimal cs)"
proof -
  assume n: "numeric cs"
  then obtain c cs' where cs: "cs = c # cs'" by (cases cs) (auto simp: numeric_def)
  from n cs obtain d where d: "digit_of c = Some d" by (auto simp: numeric_def)
  have all: "\<forall>x\<in>set cs'. digit_of x \<noteq> None" using n cs by (simp add: numeric_def)
  have "unsigned_value cs = Some (decimal cs)"
    using d cs digits_value_digits[OF all, of d] by (simp add: unsigned_value_def decimal_def)
  moreover have "c \<noteq> CHR ''-'' \<and> c \<noteq> CHR ''+''" using digit_not_special[of c] d by simp
  ultimately show ?thesis using strip_numeric[OF n] cs by (simp add: py_int_def)
qed

lemma str_split_no_sep: "sep \<notin> set s \<Longrightarrow> str_split sep s = [s]"
  by (induction s) auto

lemma str_split_first: "sep \<notin> set a \<Longrightarrow> str_split sep (a @ sep # b) = a # str_split sep b"
  by (induction a) auto

lemma convert_absent: "convert_time_to_seconds None = Inr None"
  by (simp add: convert_time_to_seconds_def)

lemma convert_empty: "convert_time_to_seconds (Some []) = Inr None"
  by (simp add: convert_time_to_seconds_def)

lemma convert_numeric_fields:
  assumes "numeric m" and "numeric s"
  shows "convert_time_to_seconds (Some (m @ CHR '':'' # s)) = Inr (Some (decimal m * 60 + decimal s))"
proof -
  have "CHR '':'' \<notin> set m" "CHR '':'' \<notin> set s"
    using assms digit_not_special[of "CHR '':''"] by (auto simp: numeric_def)
  then have "str_split (CHR '':'') (m @ CHR '':'' # s) = [m, s]"
    by (simp add: str_split_first str_split_no_sep)
  then show ?thesis
    using py_int_numeric[OF assms(1)] py_int_numeric[OF assms(2)]
    by (simp add: convert_time_to_seconds_def)
qed

lemma convert_other_field_count:
  "length (str_split (CHR '':'') s) \<noteq> 2 \<Longrightarrow> convert_time_to_seconds (Some s) = Inr None"
  by (auto simp: convert_time_to_seconds_def split: list.splits)

text \<open>
  C6 (a malformed clock is never fatal) fails on the code. A clock with two fields
  that are not numbers makes \<open>int()\<close> raise \<open>ValueError\<close>, which nothing catches:
  the enrichment aborts. A clock with another number of fields is converted to the absent
  value, which the presence query then compares with a shift's start second:
  \<open>TypeError\<close>, and the enrichment aborts as well.
\<close>

theorem malformed_clock_aborts:
  "convert_time_to_seconds (Some ''ab:cd'') = Inl ValueError \<and>
   combine_pbp_with_shifts
       (Some [\<lparr>periodNumber = Some 1, timeInPeriod = Some ''ab:cd'', typeCode = 506,
               situationCode = 1551, shootingPlayerId = Some 7\<rparr>])
       (Some [\<lparr>playerId = 7, teamAbbrev = ''NJD'', period = 1, startTime = Some ''00:00'',
               endTime = Some ''01:00'', shift_typeCode = 517\<rparr>,
              \<lparr>playerId = 9, teamAbbrev = ''PIT'', period = 1, startTime = Some ''00:00'',
               endTime = Some ''01:00'', shift_typeCode = 517\<rparr>]) = Inl ValueError \<and>
   convert_time_to_seconds (Some ''1:2:3'') = Inr None \<and>
   combine_pbp_with_shifts
       (Some [\<lparr>periodNumber = Some 1, timeInPeriod = Some ''1:2:3'', typeCode = 506,
               situationCode = 1551, shootingPlayerId = Some 7\<rparr>])
       (Some [\<lparr>playerId = 7, teamAbbrev = ''NJD'', period = 1, startTime = Some ''00:00'',
               endTime = Some ''01:00'', shift_typeCode = 517\<rparr>,
              \<lparr>playerId = 9, teamAbbrev = ''PIT'', period = 1, startTime = Some ''00:00'',
               endTime = Some ''01:00'', shift_typeCode = 517\<rparr>]) = Inl TypeError"
  by (simp add: combine_pbp_with_shifts_def home_away_teams_def unique_def enrich_play_def
      get_players_on_ice_def period_shifts_def chained_compare_def clock_eval)

section \<open>Properties of the situation filter and the aggregation\<close>

lemma map_of_modify:
  "map_of (modify k f st) p = (if p = k then map_option f (map_of st p) else map_of st p)"
  by (induction st) (auto simp: modify_def)

lemma map_of_new_entry:
  "map_of (new_entry k st) p =
     (if p = k \<and> map_of st k = None then Some \<lparr>CF = 0, CA = 0, TOI_events = 0\<rparr> else map_of st p)"
proof (cases "k \<in> set (map fst st)")
  case True
  then have "map_of st k \<noteq> None" by (simp add: map_of_eq_None_iff)
  then show ?thesis using True by (simp add: new_entry_def)
next
  case False
  then have "map_of st k = None" by (simp add: map_of_eq_None_iff)
  then show ?thesis using False
    by (cases "map_of st p") (auto simp: new_entry_def map_add_def)
qed

lemma counters_credit:
  "counters (credit own st k) p =
     (if p = k then
        \<lparr>CF = CF (counters st k) + (if own then 1 else 0),
         CA = CA (counters st k) + (if own then 0 else 1),
         TOI_events = TOI_events (counters st k) + 1\<rparr>
      else counters st p)"
  by (cases "map_of st k")
     (auto simp: counters_def credit_def Let_def map_of_modify map_of_new_entry)

lemma counters_credit_all:
  "counters (foldl (credit own) st ps) p =
     \<lparr>CF = CF (counters st p) + (if own then int (count_list ps p) else 0),
      CA = CA (counters st p) + (if own then 0 else int (count_list ps p)),
      TOI_events = TOI_events (counters st p) + int (count_list ps p)\<rparr>"
proof (induction ps arbitrary: st)
  case Nil
  show ?case by simp
next
  case (Cons k ps)
  show ?case by (simp add: Cons.IH counters_credit)
qed

lemma process_event_home:
  assumes "shootingPlayerId e = Some sid" "homePlayersOnIce e = Some hp"
    "awayPlayersOnIce e = Some ap" "sid \<in> set hp"
  shows "\<exists>st'. process_event st e = Inr st' \<and>
     (\<forall>p. CF (counters st' p) = CF (counters st p) + int (count_list hp p) \<and>
          CA (counters st' p) = CA (counters st p) + int (count_list ap p) \<and>
          TOI_events (counters st' p) =
            TOI_events (counters st p) + int (count_list hp p) + int (count_list ap p))"
  using assms by (simp add: process_event_def shooting_team_def counters_credit_all)

lemma process_event_away:
  assumes "shootingPlayerId e = Some sid" "homePlayersOnIce e = Some hp"
    "awayPlayersOnIce e = Some ap" "sid \<notin> set hp" "sid \<in> set ap"
  shows "\<exists>st'. process_event st e = Inr st' \<and>
     (\<forall>p. CF (counters st' p) = CF (counters st p) + int (count_list ap p) \<and>
          CA (counters st' p) = CA (counters st p) + int (count_list hp p) \<and>
          TOI_events (counters st' p) =
            TOI_events (counters st p) + int (count_list hp p) + int (count_list ap p))"
  using assms by (simp add: process_event_def shooting_team_def counters_credit_all)

lemma process_event_skip:
  assumes "homePlayersOnIce e = Some hp" "awayPlayersOnIce e = Some ap"
    "\<forall>sid. shootingPlayerId e = Some sid \<longrightarrow> sid \<notin> set hp \<and> sid \<notin> set ap"
  shows "process_event st e = Inr st"
  using assms by (cases "shootingPlayerId e") (auto simp: process_event_def shooting_team_def)


lemma credit_conserves:
  "\<forall>(k, v)\<in>set st. CF v + CA v = TOI_events v \<and> 0 \<le> CF v \<and> 0 \<le> CA v \<Longrightarrow>
   \<forall>(k, v)\<in>set (credit own st pid). CF v + CA v = TOI_events v \<and> 0 \<le> CF v \<and> 0 \<le> CA v"
  by (auto simp: credit_def new_entry_def modify_def Let_def split: if_splits)

lemma credit_all_conserves:
  "\<forall>(k, v)\<in>set st. CF v + CA v = TOI_events v \<and> 0 \<le> CF v \<and> 0 \<le> CA v \<Longrightarrow>
   \<forall>(k, v)\<in>set (foldl (credit own) st ps). CF v + CA v = TOI_events v \<and> 0 \<le> CF v \<and> 0 \<le> CA v"
proof (induction ps arbitrary: st)
  case Nil
  then show ?case by simp
next
  case (Cons p ps)
  have "\<forall>(k, v)\<in>set (credit own st p). CF v + CA v = TOI_events v \<and> 0 \<le> CF v \<and> 0 \<le> CA v"
    using Cons.prems by (rule credit_conserves)
  from Cons.IH[OF this] show ?case by simp
qed

lemma process_event_conserves:
  assumes "\<forall>(k, v)\<in>set st. CF v + CA v = TOI_events v \<and> 0 \<le> CF v \<and> 0 \<le> CA v" and "process_event st e = Inr st'"
  shows "\<forall>(k, v)\<in>set st'. CF v + CA v = TOI_events v \<and> 0 \<le> CF v \<and> 0 \<le> CA v"
proof (cases "shootingPlayerId e")
  case None
  then show ?thesis using assms by (simp add: process_event_def)
next
  case (Some sid)
  show ?thesis
  proof (cases "shooting_team sid (homePlayersOnIce e) (awayPlayersOnIce e)")
    case (Inl err)
    then show ?thesis using assms Some by (simp add: process_event_def)
  next
    case (Inr side)
    show ?thesis
    proof (cases side)
      case None
      then show ?thesis using assms Some Inr by (simp add: process_event_def)
    next
      case (Some tm)
      with assms(2) \<open>shootingPlayerId e = Some sid\<close> Inr
      obtain hp ap where "st' = foldl (credit (tm = ''away'')) (foldl (credit (tm = ''home'')) st hp) ap"
        by (auto simp: process_event_def split: option.splits)
      then show ?thesis
        using credit_all_conserves[OF credit_all_conserves[OF assms(1)]] by simp
    qed
  qed
qed

lemma corsi_loop_conserves:
  "\<forall>(k, v)\<in>set st. CF v + CA v = TOI_events v \<and> 0 \<le> CF v \<and> 0 \<le> CA v \<Longrightarrow> corsi_loop st events = Inr st' \<Longrightarrow>
   \<forall>(k, v)\<in>set st'. CF v + CA v = TOI_events v \<and> 0 \<le> CF v \<and> 0 \<le> CA v"
proof (induction events arbitrary: st)
  case Nil
  then show ?case by simp
next
  case (Cons e events)
  from Cons.prems(2) obtain st1 where 1: "process_event st e = Inr st1"
    and 2: "corsi_loop st1 events = Inr st'"
    by (auto split: sum.splits)
  from process_event_conserves[OF Cons.prems(1) 1] Cons.IH 2 show ?case by blast
qed

lemma process_event_returns:
  assumes "homePlayersOnIce e = Some hp" "awayPlayersOnIce e = Some ap"
  shows "\<exists>st'. process_event st e = Inr st'"
  using assms by (cases "shootingPlayerId e") (auto simp: process_event_def shooting_team_def)

lemma corsi_loop_returns:
  "\<forall>e\<in>set events. homePlayersOnIce e \<noteq> None \<and> awayPlayersOnIce e \<noteq> None \<Longrightarrow>
   \<exists>st'. corsi_loop st events = Inr st'"
proof (induction events arbitrary: st)
  case Nil
  show ?case by simp
next
  case (Cons e events)
  from Cons.prems obtain hp ap where "homePlayersOnIce e = Some hp" "awayPlayersOnIce e = Some ap"
    by auto
  from process_event_returns[OF this] obtain st1 where "process_event st e = Inr st1" by blast
  moreover from Cons obtain st2 where "corsi_loop st1 events = Inr st2" by fastforce
  ultimately show ?case by simp
qed

lemma corsi_events_on_ice:
  assumes "counts_match e" "e \<in> set (corsi_events pbp_df)"
  shows "\<exists>hp ap. homePlayersOnIce e = Some hp \<and> awayPlayersOnIce e = Some ap \<and>
           length hp = 6 \<and> length ap = 6"
  using assms by (auto simp: counts_match_def corsi_events_def split: option.splits)

lemma sum_count_list_int:
  "finite H \<Longrightarrow> set xs \<subseteq> H \<Longrightarrow> (\<Sum>p\<in>H. int (count_list xs p)) = int (length xs)"
  using sum_count_set[of xs H] by (simp flip: of_nat_sum)

lemma sum_count_list_zero:
  "set xs \<inter> H = {} \<Longrightarrow> (\<Sum>p\<in>H. int (count_list xs p)) = 0"
  by (rule sum.neutral) (auto simp: count_list_0_iff)

lemma process_event_zero_sum:
  assumes "finite H" "finite A" "H \<inter> A = {}"
    and "homePlayersOnIce e = Some hp" "awayPlayersOnIce e = Some ap"
    and "set hp \<subseteq> H" "set ap \<subseteq> A" "length hp = length ap"
  shows "\<exists>st'. process_event st e = Inr st' \<and>
     (\<Sum>p\<in>H. CF (counters st' p)) - (\<Sum>p\<in>A. CA (counters st' p)) =
       (\<Sum>p\<in>H. CF (counters st p)) - (\<Sum>p\<in>A. CA (counters st p)) \<and>
     (\<Sum>p\<in>A. CF (counters st' p)) - (\<Sum>p\<in>H. CA (counters st' p)) =
       (\<Sum>p\<in>A. CF (counters st p)) - (\<Sum>p\<in>H. CA (counters st p))"
proof -
  have hA: "set hp \<inter> A = {}" and aH: "set ap \<inter> H = {}" using assms(3,6,7) by auto
  note sums = sum.distrib sum_count_list_int[OF assms(1,6)] sum_count_list_int[OF assms(2,7)]
    sum_count_list_zero[OF hA] sum_count_list_zero[OF aH]
  consider (skip) "\<forall>sid. shootingPlayerId e = Some sid \<longrightarrow> sid \<notin> set hp \<and> sid \<notin> set ap"
    | (home) sid where "shootingPlayerId e = Some sid" "sid \<in> set hp"
    | (away) sid where "shootingPlayerId e = Some sid" "sid \<notin> set hp" "sid \<in> set ap"
    by (cases "shootingPlayerId e") auto
  then show ?thesis
  proof cases
    case skip
    from process_event_skip[OF assms(4,5) skip] show ?thesis by simp
  next
    case home
    from process_event_home[OF home(1) assms(4,5) home(2), of st]
    obtain st' where "process_event st e = Inr st'"
      and g: "\<And>p. CF (counters st' p) = CF (counters st p) + int (count_list hp p)"
        "\<And>p. CA (counters st' p) = CA (counters st p) + int (count_list ap p)"
      by blast
    then show ?thesis using assms(8) by (simp add: sums)
  next
    case away
    from process_event_away[OF away(1) assms(4,5) away(2,3), of st]
    obtain st' where "process_event st e = Inr st'"
      and g: "\<And>p. CF (counters st' p) = CF (counters st p) + int (count_list ap p)"
        "\<And>p. CA (counters st' p) = CA (counters st p) + int (count_list hp p)"
      by blast
    then show ?thesis using assms(8) by (simp add: sums)
  qed
qed

lemma corsi_loop_zero_sum:
  assumes "finite H" "finite A" "H \<inter> A = {}"
  shows "\<forall>e\<in>set events. \<exists>hp ap. homePlayersOnIce e = Some hp \<and> awayPlayersOnIce e = Some ap \<and>
            set hp \<subseteq> H \<and> set ap \<subseteq> A \<and> length hp = length ap \<Longrightarrow>
   \<exists>st'. corsi_loop st events = Inr st' \<and>
     (\<Sum>p\<in>H. CF (counters st' p)) - (\<Sum>p\<in>A. CA (counters st' p)) =
       (\<Sum>p\<in>H. CF (counters st p)) - (\<Sum>p\<in>A. CA (counters st p)) \<and>
     (\<Sum>p\<in>A. CF (counters st' p)) - (\<Sum>p\<in>H. CA (counters st' p)) =
       (\<Sum>p\<in>A. CF (counters st p)) - (\<Sum>p\<in>H. CA (counters st p))"
proof (induction events arbitrary: st)
  case Nil
  show ?case by simp
next
  case (Cons e events)
  from Cons.prems obtain hp ap where e: "homePlayersOnIce e = Some hp" "awayPlayersOnIce e = Some ap"
    "set hp \<subseteq> H" "set ap \<subseteq> A" "length hp = length ap" by auto
  from process_event_zero_sum[OF assms e, of st] obtain st1
    where 1: "process_event st e = Inr st1"
      and s1: "(\<Sum>p\<in>H. CF (counters st1 p)) - (\<Sum>p\<in>A. CA (counters st1 p)) =
       (\<Sum>p\<in>H. CF (counters st p)) - (\<Sum>p\<in>A. CA (counters st p))"
        "(\<Sum>p\<in>A. CF (counters st1 p)) - (\<Sum>p\<in>H. CA (counters st1 p)) =
       (\<Sum>p\<in>A. CF (counters st p)) - (\<Sum>p\<in>H. CA (counters st p))"
    by blast
  from Cons.IH[of st1] Cons.prems obtain st2
    where 2: "corsi_loop st1 events = Inr st2"
      and s2: "(\<Sum>p\<in>H. CF (counters st2 p)) - (\<Sum>p\<in>A. CA (counters st2 p)) =
       (\<Sum>p\<in>H. CF (counters st1 p)) - (\<Sum>p\<in>A. CA (counters st1 p))"
        "(\<Sum>p\<in>A. CF (counters st2 p)) - (\<Sum>p\<in>H. CA (counters st2 p)) =
       (\<Sum>p\<in>A. CF (counters st1 p)) - (\<Sum>p\<in>H. CA (counters st1 p))"
    by auto
  show ?case using 1 2 s1 s2 by simp
qed


lemma enrich_play_counts_match: "enrich_play shifts_df h a p = Inr r \<Longrightarrow> counts_match r"
  by (auto simp: enrich_play_def counts_match_def split: option.splits sum.splits)

lemma example_loop:
  "corsi_loop [] (corsi_events
       [example_shot 506 1551 (Some 1) [1, 2, 3, 4, 5, 6] [7, 8, 9, 10, 11, 12],
        example_shot 507 1551 (Some 7) [1, 2, 3, 4, 5, 6] [7, 8, 9, 10, 11, 12]]) =
   Inr (map (\<lambda>k. (k, \<lparr>CF = 1, CA = 1, TOI_events = 2\<rparr>)) [1, 2, 3, 4, 5, 6, 7, 8, 9, 10, 11, 12])"
  by (simp add: corsi_events_def shot_attempt_events_def example_shot_def process_event_def
      shooting_team_def credit_def new_entry_def modify_def)


text \<open>
  C2 (situation filter). An event is selected iff it is an event of the frame and all four
  conditions hold: a shot-attempt type code, situation code 1551, six home players and six
  away players. So situation code 1551 with counts other than six and six is excluded, and
  so is six against six with another situation code.
\<close>

theorem situation_filter:
  "(e \<in> set (corsi_events pbp_df) \<longleftrightarrow>
      e \<in> set pbp_df \<and> typeCode e \<in> {505, 506, 507, 508} \<and> situationCode e = 1551 \<and>
      homePlayersCount e = 6 \<and> awayPlayersCount e = 6) \<and>
   (situationCode e = 1551 \<and> \<not> (homePlayersCount e = 6 \<and> awayPlayersCount e = 6) \<longrightarrow>
      e \<notin> set (corsi_events pbp_df)) \<and>
   (homePlayersCount e = 6 \<and> awayPlayersCount e = 6 \<and> situationCode e \<noteq> 1551 \<longrightarrow>
      e \<notin> set (corsi_events pbp_df))"
  by (auto simp: corsi_events_def shot_attempt_events_def)

theorem situation_filter_witness:
  "example_shot 506 1551 (Some 1) [1, 2, 3, 4, 5, 6] [7, 8, 9, 10, 11, 12] \<in> set (corsi_events
      [example_shot 506 1551 (Some 1) [1, 2, 3, 4, 5, 6] [7, 8, 9, 10, 11, 12],
       example_shot 506 1551 (Some 1) [1, 2, 3, 4, 5] [7, 8, 9, 10, 11, 12],
       example_shot 506 1451 (Some 1) [1, 2, 3, 4, 5, 6] [7, 8, 9, 10, 11, 12]]) \<and>
   example_shot 506 1551 (Some 1) [1, 2, 3, 4, 5] [7, 8, 9, 10, 11, 12] \<notin> set (corsi_events
      [example_shot 506 1551 (Some 1) [1, 2, 3, 4, 5, 6] [7, 8, 9, 10, 11, 12],
       example_shot 506 1551 (Some 1) [1, 2, 3, 4, 5] [7, 8, 9, 10, 11, 12],
       example_shot 506 1451 (Some 1) [1, 2, 3, 4, 5, 6] [7, 8, 9, 10, 11, 12]]) \<and>
   example_shot 506 1451 (Some 1) [1, 2, 3, 4, 5, 6] [7, 8, 9, 10, 11, 12] \<notin> set (corsi_events
      [example_shot 506 1551 (Some 1) [1, 2, 3, 4, 5, 6] [7, 8, 9, 10, 11, 12],
       example_shot 506 1551 (Some 1) [1, 2, 3, 4, 5] [7, 8, 9, 10, 11, 12],
       example_shot 506 1451 (Some 1) [1, 2, 3, 4, 5, 6] [7, 8, 9, 10, 11, 12]])"
proof -
  let ?ok = "example_shot 506 1551 (Some 1) [1, 2, 3, 4, 5, 6] [7, 8, 9, 10, 11, 12]"
  let ?five = "example_shot 506 1551 (Some 1) [1, 2, 3, 4, 5] [7, 8, 9, 10, 11, 12]"
  let ?pp = "example_shot 506 1451 (Some 1) [1, 2, 3, 4, 5, 6] [7, 8, 9, 10, 11, 12]"
  have "?ok \<in> set (corsi_events [?ok, ?five, ?pp])"
    using situation_filter[of ?ok "[?ok, ?five, ?pp]"] by (simp add: example_shot_def)
  moreover have "?five \<notin> set (corsi_events [?ok, ?five, ?pp])"
    using situation_filter[of ?five "[?ok, ?five, ?pp]"] by (simp add: example_shot_def)
  moreover have "?pp \<notin> set (corsi_events [?ok, ?five, ?pp])"
    using situation_filter[of ?pp "[?ok, ?five, ?pp]"] by (simp add: example_shot_def)
  ultimately show ?thesis by blast
qed

text \<open>
  C4 (per-player conservation). After the aggregation loop over any events, every record
  of the statistics table has \<open>CF + CA = TOI_events\<close>; and over the qualifying events of
  a frame whose counts match its lists, the loop returns a table.
\<close>

theorem per_player_conservation:
  "(corsi_loop [] events = Inr player_stats \<longrightarrow>
      (\<forall>(pid, s)\<in>set player_stats. CF s + CA s = TOI_events s)) \<and>
   ((\<forall>e\<in>set pbp_df. counts_match e) \<longrightarrow>
      (\<exists>stats. corsi_loop [] (corsi_events pbp_df) = Inr stats))"
proof (intro conjI impI)
  assume "corsi_loop [] events = Inr player_stats"
  then show "\<forall>(pid, s)\<in>set player_stats. CF s + CA s = TOI_events s"
    using corsi_loop_conserves[of "[]" events player_stats] by fastforce
next
  assume "\<forall>e\<in>set pbp_df. counts_match e"
  then have "\<forall>e\<in>set (corsi_events pbp_df).
      homePlayersOnIce e \<noteq> None \<and> awayPlayersOnIce e \<noteq> None"
    using corsi_events_on_ice[of _ pbp_df] by (fastforce simp: corsi_events_def)
  then show "\<exists>stats. corsi_loop [] (corsi_events pbp_df) = Inr stats"
    by (rule corsi_loop_returns)
qed


theorem per_player_conservation_witness:
  "corsi_loop [] (corsi_events
       [example_shot 506 1551 (Some 1) [1, 2, 3, 4, 5, 6] [7, 8, 9, 10, 11, 12],
        example_shot 507 1551 (Some 7) [1, 2, 3, 4, 5, 6] [7, 8, 9, 10, 11, 12]]) =
     Inr (map (\<lambda>k. (k, \<lparr>CF = 1, CA = 1, TOI_events = 2\<rparr>)) [1, 2, 3, 4, 5, 6, 7, 8, 9, 10, 11, 12]) \<and>
   list_all (\<lambda>(pid, s). CF s + CA s = TOI_events s)
     (map (\<lambda>k. (k, \<lparr>CF = 1, CA = 1, TOI_events = 2\<rparr>))
        [1, 2, 3, 4, 5, 6, 7, 8, 9, 10, 11, 12 :: int])"
proof -
  let ?evs = "corsi_events
       [example_shot 506 1551 (Some 1) [1, 2, 3, 4, 5, 6] [7, 8, 9, 10, 11, 12],
        example_shot 507 1551 (Some 7) [1, 2, 3, 4, 5, 6] [7, 8, 9, 10, 11, 12]]"
  let ?stats = "map (\<lambda>k. (k, \<lparr>CF = 1, CA = 1, TOI_events = 2\<rparr>)) [1, 2, 3, 4, 5, 6, 7, 8, 9, 10, 11, 12 :: int]"
  have ev: "corsi_loop [] ?evs = Inr ?stats" by (rule example_loop)
  with per_player_conservation[of ?evs ?stats]
  have "\<forall>(pid, s)\<in>set ?stats. CF s + CA s = TOI_events s" by blast
  then have "list_all (\<lambda>(pid, s). CF s + CA s = TOI_events s) ?stats"
    unfolding list_all_iff .
  with ev show ?thesis by blast
qed

text \<open>
  C3 (one CF or CA per player and event) fails on the code, through the double entries of
  the presence query. The loops credit every entry of an on-ice list. With two
  overlapping shift rows for player 1 the enrichment lists the player twice: six entries
  for five distinct home players. The count of 6 passes the filter that reads it as five
  skaters and a goalie, and the one event credits player 1 with two CF and two events on
  the ice, and every other home player with one.
\<close>

theorem duplicate_listing_counts_twice:
  "combine_pbp_with_shifts
     (Some [\<lparr>periodNumber = Some 1, timeInPeriod = Some ''00:45'', typeCode = 506,
             situationCode = 1551, shootingPlayerId = Some 1\<rparr>])
     (Some (map (\<lambda>(pid, tm, start, stop).
                  \<lparr>playerId = pid, teamAbbrev = tm, period = 1, startTime = Some start,
                   endTime = Some stop, shift_typeCode = 517\<rparr>)
             [(1, ''NJD'', ''00:00'', ''01:00''), (1, ''NJD'', ''00:30'', ''01:30''),
              (2, ''NJD'', ''00:00'', ''01:00''), (3, ''NJD'', ''00:00'', ''01:00''),
              (4, ''NJD'', ''00:00'', ''01:00''), (5, ''NJD'', ''00:00'', ''01:00''),
              (7, ''PIT'', ''00:00'', ''01:00''), (8, ''PIT'', ''00:00'', ''01:00''),
              (9, ''PIT'', ''00:00'', ''01:00''), (10, ''PIT'', ''00:00'', ''01:00''),
              (11, ''PIT'', ''00:00'', ''01:00''), (12, ''PIT'', ''00:00'', ''01:00'')])) =
     Inr (Some [\<lparr>periodNumber = Some 1, timeInPeriod = Some ''00:45'', typeCode = 506,
        situationCode = 1551, shootingPlayerId = Some 1,
        homePlayersOnIce = Some [1, 1, 2, 3, 4, 5],
        awayPlayersOnIce = Some [7, 8, 9, 10, 11, 12],
        homePlayersCount = 6, awayPlayersCount = 6\<rparr>]) \<and>
   (\<exists>player_stats.
      corsi_loop [] (corsi_events [\<lparr>periodNumber = Some 1, timeInPeriod = Some ''00:45'', typeCode = 506,
        situationCode = 1551, shootingPlayerId = Some 1,
        homePlayersOnIce = Some [1, 1, 2, 3, 4, 5],
        awayPlayersOnIce = Some [7, 8, 9, 10, 11, 12],
        homePlayersCount = 6, awayPlayersCount = 6\<rparr>]) = Inr player_stats \<and>
      CF (counters player_stats 1) = 2 \<and> TOI_events (counters player_stats 1) = 2 \<and>
      CF (counters player_stats 2) = 1) \<and>
   length (remdups [1, 1, 2, 3, 4, 5 :: int]) = 5"
  by (simp add: combine_pbp_with_shifts_def home_away_teams_def unique_def enrich_play_def
      get_players_on_ice_def period_shifts_def chained_compare_def clock_eval
      corsi_events_def shot_attempt_events_def process_event_def
      shooting_team_def credit_def new_entry_def modify_def counters_def)

text \<open>
  The zero-sum law of the loops. Let the on-ice lists of a frame lie in two disjoint
  rosters \<open>H\<close> (home) and \<open>A\<close> (away), with counts that match the lists. For a
  qualifying event whose shooter is on the ice, every entry of the shooting team's list
  adds one CF to its player and every entry of the other list adds one CA to its player;
  on duplicate-free lists that is exactly +1 CF for each player of one team and +1 CA for
  each player of the other. Over all qualifying events the loop returns a table in which
  the CF summed over one roster equals the CA summed over the other.
\<close>

theorem corsi_zero_sum:
  assumes "finite H" "finite A" "H \<inter> A = {}"
    and "\<forall>e\<in>set pbp_df. counts_match e \<and>
           (\<forall>hp. homePlayersOnIce e = Some hp \<longrightarrow> set hp \<subseteq> H) \<and>
           (\<forall>ap. awayPlayersOnIce e = Some ap \<longrightarrow> set ap \<subseteq> A)"
  shows "(\<forall>e\<in>set (corsi_events pbp_df). \<forall>st sid hp ap.
            shootingPlayerId e = Some sid \<and> homePlayersOnIce e = Some hp \<and>
            awayPlayersOnIce e = Some ap \<and> (sid \<in> set hp \<or> sid \<in> set ap) \<longrightarrow>
            (\<exists>st'. process_event st e = Inr st' \<and>
               (\<forall>p. CF (counters st' p) =
                      CF (counters st p) + int (count_list (if sid \<in> set hp then hp else ap) p) \<and>
                    CA (counters st' p) =
                      CA (counters st p) + int (count_list (if sid \<in> set hp then ap else hp) p)) \<and>
               (distinct hp \<and> distinct ap \<longrightarrow>
                  (\<forall>p\<in>set (if sid \<in> set hp then hp else ap).
                     CF (counters st' p) = CF (counters st p) + 1 \<and>
                     CA (counters st' p) = CA (counters st p)) \<and>
                  (\<forall>p\<in>set (if sid \<in> set hp then ap else hp).
                     CA (counters st' p) = CA (counters st p) + 1 \<and>
                     CF (counters st' p) = CF (counters st p))))) \<and>
         (\<exists>player_stats. corsi_loop [] (corsi_events pbp_df) = Inr player_stats \<and>
            (\<Sum>p\<in>H. CF (counters player_stats p)) = (\<Sum>p\<in>A. CA (counters player_stats p)) \<and>
            (\<Sum>p\<in>A. CF (counters player_stats p)) = (\<Sum>p\<in>H. CA (counters player_stats p)))"
proof (rule conjI)
  show "\<forall>e\<in>set (corsi_events pbp_df). \<forall>st sid hp ap.
            shootingPlayerId e = Some sid \<and> homePlayersOnIce e = Some hp \<and>
            awayPlayersOnIce e = Some ap \<and> (sid \<in> set hp \<or> sid \<in> set ap) \<longrightarrow>
            (\<exists>st'. process_event st e = Inr st' \<and>
               (\<forall>p. CF (counters st' p) =
                      CF (counters st p) + int (count_list (if sid \<in> set hp then hp else ap) p) \<and>
                    CA (counters st' p) =
                      CA (counters st p) + int (count_list (if sid \<in> set hp then ap else hp) p)) \<and>
               (distinct hp \<and> distinct ap \<longrightarrow>
                  (\<forall>p\<in>set (if sid \<in> set hp then hp else ap).
                     CF (counters st' p) = CF (counters st p) + 1 \<and>
                     CA (counters st' p) = CA (counters st p)) \<and>
                  (\<forall>p\<in>set (if sid \<in> set hp then ap else hp).
                     CA (counters st' p) = CA (counters st p) + 1 \<and>
                     CF (counters st' p) = CF (counters st p))))"
  proof (intro ballI allI impI)
    fix e st sid hp ap
    assume e: "e \<in> set (corsi_events pbp_df)"
      and h: "shootingPlayerId e = Some sid \<and> homePlayersOnIce e = Some hp \<and>
            awayPlayersOnIce e = Some ap \<and> (sid \<in> set hp \<or> sid \<in> set ap)"
    from e have "e \<in> set pbp_df" by (simp add: corsi_events_def)
    with assms(4) h have sub: "set hp \<subseteq> H" "set ap \<subseteq> A" by auto
    with assms(3) have disj: "set hp \<inter> set ap = {}" by auto
    have zero_h: "\<And>p. p \<in> set hp \<Longrightarrow> count_list ap p = 0"
      using disj by (auto simp: count_list_0_iff)
    have zero_a: "\<And>p. p \<in> set ap \<Longrightarrow> count_list hp p = 0"
      using disj by (auto simp: count_list_0_iff)
    have one: "\<And>xs (p::int). distinct xs \<Longrightarrow> p \<in> set xs \<Longrightarrow> count_list xs p = 1"
    proof -
      fix xs and p :: int assume "distinct xs" "p \<in> set xs"
      then have "count_list xs p \<le> 1" "count_list xs p \<noteq> 0"
        by (simp_all add: distinct_iff_count_le1 count_list_0_iff)
      then show "count_list xs p = 1" by simp
    qed
    show "\<exists>st'. process_event st e = Inr st' \<and>
               (\<forall>p. CF (counters st' p) =
                      CF (counters st p) + int (count_list (if sid \<in> set hp then hp else ap) p) \<and>
                    CA (counters st' p) =
                      CA (counters st p) + int (count_list (if sid \<in> set hp then ap else hp) p)) \<and>
               (distinct hp \<and> distinct ap \<longrightarrow>
                  (\<forall>p\<in>set (if sid \<in> set hp then hp else ap).
                     CF (counters st' p) = CF (counters st p) + 1 \<and>
                     CA (counters st' p) = CA (counters st p)) \<and>
                  (\<forall>p\<in>set (if sid \<in> set hp then ap else hp).
                     CA (counters st' p) = CA (counters st p) + 1 \<and>
                     CF (counters st' p) = CF (counters st p)))"
    proof (cases "sid \<in> set hp")
      case True
      from process_event_home[of e sid hp ap st] h True obtain st'
        where "process_event st e = Inr st'"
          and "\<And>p. CF (counters st' p) = CF (counters st p) + int (count_list hp p)"
            "\<And>p. CA (counters st' p) = CA (counters st p) + int (count_list ap p)"
        by blast
      then show ?thesis using True zero_h zero_a one by simp
    next
      case False
      with h have "sid \<in> set ap" by simp
      from process_event_away[of e sid hp ap st] h False this obtain st'
        where "process_event st e = Inr st'"
          and "\<And>p. CF (counters st' p) = CF (counters st p) + int (count_list ap p)"
            "\<And>p. CA (counters st' p) = CA (counters st p) + int (count_list hp p)"
        by blast
      then show ?thesis using False zero_h zero_a one by simp
    qed
  qed
next
  have "\<forall>e\<in>set (corsi_events pbp_df). \<exists>hp ap. homePlayersOnIce e = Some hp \<and>
      awayPlayersOnIce e = Some ap \<and> set hp \<subseteq> H \<and> set ap \<subseteq> A \<and> length hp = length ap"
  proof
    fix e assume e: "e \<in> set (corsi_events pbp_df)"
    then have m: "e \<in> set pbp_df" by (simp add: corsi_events_def)
    with assms(4) have "counts_match e" by simp
    from corsi_events_on_ice[OF this e] obtain hp ap
      where "homePlayersOnIce e = Some hp" "awayPlayersOnIce e = Some ap"
        "length hp = 6" "length ap = 6" by blast
    with assms(4) m show "\<exists>hp ap. homePlayersOnIce e = Some hp \<and>
      awayPlayersOnIce e = Some ap \<and> set hp \<subseteq> H \<and> set ap \<subseteq> A \<and> length hp = length ap"
      by auto
  qed
  from corsi_loop_zero_sum[OF assms(1-3) this, of "[]"]
  show "\<exists>player_stats. corsi_loop [] (corsi_events pbp_df) = Inr player_stats \<and>
            (\<Sum>p\<in>H. CF (counters player_stats p)) = (\<Sum>p\<in>A. CA (counters player_stats p)) \<and>
            (\<Sum>p\<in>A. CF (counters player_stats p)) = (\<Sum>p\<in>H. CA (counters player_stats p))"
    by (auto simp: counters_def)
qed

theorem corsi_zero_sum_witness:
  "\<exists>player_stats. corsi_loop [] (corsi_events
       [example_shot 506 1551 (Some 1) [1, 2, 3, 4, 5, 6] [7, 8, 9, 10, 11, 12],
        example_shot 507 1551 (Some 7) [1, 2, 3, 4, 5, 6] [7, 8, 9, 10, 11, 12]]) = Inr player_stats \<and>
     (\<Sum>p\<in>{1, 2, 3, 4, 5, 6}. CF (counters player_stats p)) =
       (\<Sum>p\<in>{7, 8, 9, 10, 11, 12}. CA (counters player_stats p)) \<and>
     (\<Sum>p\<in>{7, 8, 9, 10, 11, 12}. CF (counters player_stats p)) =
       (\<Sum>p\<in>{1, 2, 3, 4, 5, 6}. CA (counters player_stats p)) \<and>
     (\<Sum>p\<in>{1, 2, 3, 4, 5, 6}. CF (counters player_stats p)) = 6"
proof -
  let ?pbp = "[example_shot 506 1551 (Some 1) [1, 2, 3, 4, 5, 6] [7, 8, 9, 10, 11, 12],
        example_shot 507 1551 (Some 7) [1, 2, 3, 4, 5, 6] [7, 8, 9, 10, 11, 12]]"
  let ?H = "{1, 2, 3, 4, 5, 6 :: int}"
  let ?A = "{7, 8, 9, 10, 11, 12 :: int}"
  have f: "finite ?H" "finite ?A" and d: "?H \<inter> ?A = {}" by simp_all
  have wf: "\<forall>e\<in>set ?pbp. counts_match e \<and>
           (\<forall>hp. homePlayersOnIce e = Some hp \<longrightarrow> set hp \<subseteq> ?H) \<and>
           (\<forall>ap. awayPlayersOnIce e = Some ap \<longrightarrow> set ap \<subseteq> ?A)"
    by (simp add: example_shot_def counts_match_def)
  from corsi_zero_sum[OF f d wf] obtain player_stats
    where ps: "corsi_loop [] (corsi_events ?pbp) = Inr player_stats"
      and z: "(\<Sum>p\<in>?H. CF (counters player_stats p)) = (\<Sum>p\<in>?A. CA (counters player_stats p))"
        "(\<Sum>p\<in>?A. CF (counters player_stats p)) = (\<Sum>p\<in>?H. CA (counters player_stats p))"
    by blast
  from ps example_loop have "player_stats =
      map (\<lambda>k. (k, \<lparr>CF = 1, CA = 1, TOI_events = 2\<rparr>)) [1, 2, 3, 4, 5, 6, 7, 8, 9, 10, 11, 12]"
    by simp
  then have "(\<Sum>p\<in>?H. CF (counters player_stats p)) = 6" by (simp add: counters_def)
  with ps z show ?thesis by blast
qed

section \<open>Properties of the finalisation\<close>






lemma nearest_double_zero: "nearest_double 0 = 0"
  by (simp add: nearest_double_def)

lemmas float_eval = nearest_double_def scale_down.simps scale_up.simps round_half_even_def

lemma nearest_double_values:
  "nearest_double 1 = 1" "nearest_double (1 / 2) = 1 / 2" "nearest_double 50 = 50"
  "nearest_double 100 = 100" "nearest_double (- 50) = - 50"
  by (simp_all add: float_eval)

lemma py_round1_values: "py_round1 0 = 0" "py_round1 50 = 50" "py_round1 100 = 100"
  by (simp_all add: py_round1_def round_half_even_def nearest_double_values nearest_double_zero)







section \<open>Properties of the sort and of the player directory\<close>

lemma sorts_descending_stable: "sorts_descending stable_argsort"
proof -
  have "sorted_wrt (\<lambda>a b. b \<le> a) (map (\<lambda>i. keys ! i) (stable_argsort keys))" for keys :: "real list"
  proof -
    have "sorted (map (\<lambda>i. - (keys ! i)) (stable_argsort keys))"
      unfolding stable_argsort_def by (rule sorted_sort_key)
    then show ?thesis by (simp add: sorted_wrt_map)
  qed
  then show ?thesis
    by (auto simp: sorts_descending_def stable_argsort_def)
qed

lemma sorts_descending_reversing: "sorts_descending reversing_argsort"
proof -
  have "sorted_wrt (\<lambda>a b. b \<le> a) (map (\<lambda>i. keys ! i) (reversing_argsort keys))" for keys :: "real list"
  proof -
    have "sorted (map (\<lambda>i. keys ! i) (sort_key (\<lambda>i. keys ! i) [0..<length keys]))"
      by (rule sorted_sort_key)
    then show ?thesis
      unfolding reversing_argsort_def by (simp add: sorted_wrt_map sorted_wrt_rev)
  qed
  then show ?thesis
    by (auto simp: sorts_descending_def reversing_argsort_def)
qed

lemma analyze_returns:
  assumes "analyze_player_corsi_5v5 argsort group_mean series_round player_dict pbp_df = Inr rows"
  shows "\<exists>player_stats results.
     corsi_loop [] (corsi_events pbp_df) = Inr player_stats \<and>
     results_loop player_dict player_stats = Inr results \<and> results \<noteq> [] \<and>
     rows = add_team_columns group_mean series_round player_dict (sort_values argsort results)"
  using assms by (auto simp: analyze_player_corsi_5v5_def split: sum.splits if_splits)

lemma add_team_columns_truncate:
  "map result.truncate (add_team_columns group_mean series_round player_dict corsi_df) = corsi_df"
proof -
  have eq: "\<lparr>r_playerId = r_playerId x, playerName = playerName x, r_CF = r_CF x, r_CA = r_CA x,
         CF_plus_CA = CF_plus_CA x, Corsi_pct = Corsi_pct x, r_TOI_events = r_TOI_events x\<rparr> = x"
    for x :: result
    by (cases x) simp
  show ?thesis
    by (simp add: add_team_columns_def Let_def result.truncate_def comp_def eq)
qed

lemma sort_values_keys:
  assumes "sorts_descending argsort"
  shows "map Corsi_pct (sort_values argsort corsi_df) =
     map (\<lambda>i. map Corsi_pct corsi_df ! i) (argsort (map Corsi_pct corsi_df))"
proof -
  have "set (argsort (map Corsi_pct corsi_df)) = {..<length corsi_df}"
    using assms by (simp add: sorts_descending_def)
  then show ?thesis by (auto simp: sort_values_def)
qed

lemma add_team_columns_pct:
  "map Corsi_pct (add_team_columns group_mean series_round player_dict corsi_df) =
     map Corsi_pct corsi_df"
  by (simp add: add_team_columns_def Let_def comp_def)

lemma make_result_directory:
  "map_sum id numeric_columns (make_result d1 item) =
   map_sum id numeric_columns (make_result d2 item)"
  by (cases item) (simp add: make_result_def Let_def numeric_columns_def split: sum.splits)

lemma results_loop_directory:
  "map_sum id (map numeric_columns) (results_loop d1 player_stats) =
   map_sum id (map numeric_columns) (results_loop d2 player_stats)"
proof (induction player_stats)
  case Nil
  show ?case by simp
next
  case (Cons item items)
  from make_result_directory[of d1 item d2] Cons.IH show ?case
    by (cases "make_result d1 item"; cases "make_result d2 item";
        cases "results_loop d1 items"; cases "results_loop d2 items") simp_all
qed

lemma pct_of_columns:
  "map Corsi_pct rs = map (\<lambda>c. fst (snd (snd (snd (snd c))))) (map numeric_columns rs)"
  by (simp add: numeric_columns_def comp_def)

lemma id_pct_of_columns:
  "map (\<lambda>r. (r_playerId r, Corsi_pct r)) rs =
     map (\<lambda>c. (fst c, fst (snd (snd (snd (snd c)))))) (map numeric_columns rs)"
  by (simp add: numeric_columns_def comp_def)

lemma sort_values_columns:
  assumes "sorts_descending argsort"
  shows "map numeric_columns (sort_values argsort rs) =
     map (\<lambda>i. map numeric_columns rs ! i) (argsort (map Corsi_pct rs))"
proof -
  have "set (argsort (map Corsi_pct rs)) = {..<length rs}"
    using assms by (simp add: sorts_descending_def)
  then show ?thesis by (auto simp: sort_values_def)
qed

lemma add_team_columns_columns:
  "map numeric_columns (add_team_columns group_mean series_round player_dict corsi_df) =
     map numeric_columns corsi_df"
  by (simp add: add_team_columns_def Let_def comp_def numeric_columns_def)

lemma team_columns:
  "map (\<lambda>r. (team r, Corsi_rel r))
     (add_team_columns group_mean series_round player_dict corsi_df) =
     (let ids = map (\<lambda>r. (r_playerId r, Corsi_pct r)) corsi_df;
          col = map (\<lambda>(p, c). (team_info player_dict p, c)) ids
      in map (\<lambda>(p, c).
           (team_info player_dict p,
            case team_info player_dict p of
              None \<Rightarrow> None
            | Some t \<Rightarrow>
                Some (series_round (nearest_double (c - team_averages group_mean col t))))) ids)"
proof -
  have col: "map (\<lambda>(p, c). (team_info player_dict p, c))
               (map (\<lambda>r. (r_playerId r, Corsi_pct r)) corsi_df) =
             map (\<lambda>r. (team_info player_dict (r_playerId r), Corsi_pct r)) corsi_df"
    by (simp add: comp_def)
  show ?thesis
    unfolding Let_def col by (simp add: add_team_columns_def Let_def comp_def)
qed

lemmas analysis_eval = analyze_player_corsi_5v5_def corsi_events_def shot_attempt_events_def
  example_shot_def process_event_def shooting_team_def credit_def new_entry_def modify_def
  make_result_def corsi_pct_def py_truediv_def max_double_def get_player_name_def
  nearest_double_values nearest_double_zero py_round1_values sort_values_def
  add_team_columns_def team_info_def team_averages_def arithmetic_mean_def
  half_even_tenths_def round_half_even_def

text \<open>
  C7, as stated, fails in its second half. The frame is sorted with the library's default
  kind, which promises the order of the keys and nothing about equal keys. A sorting
  routine that meets that promise can reorder the players of equal percentage: 24 players
  enter the table in the order 1 to 24, twelve of them at 100 percent, and player 18
  leaves the sort ahead of player 1.
\<close>

theorem ties_not_stable:
  "sorts_descending reversing_argsort \<and>
   map_sum id (map fst) (corsi_loop [] (corsi_events
     [example_shot 506 1551 (Some 1) [1, 2, 3, 4, 5, 6] [7, 8, 9, 10, 11, 12],
      example_shot 506 1551 (Some 13) [13, 14, 15, 16, 17, 18] [19, 20, 21, 22, 23, 24]])) =
     Inr [1, 2, 3, 4, 5, 6, 7, 8, 9, 10, 11, 12,
          13, 14, 15, 16, 17, 18, 19, 20, 21, 22, 23, 24] \<and>
   map_sum id (map (\<lambda>r. (r_playerId r, Corsi_pct r)))
     (analyze_player_corsi_5v5 reversing_argsort arithmetic_mean half_even_tenths Map.empty
        [example_shot 506 1551 (Some 1) [1, 2, 3, 4, 5, 6] [7, 8, 9, 10, 11, 12],
         example_shot 506 1551 (Some 13) [13, 14, 15, 16, 17, 18] [19, 20, 21, 22, 23, 24]]) =
     Inr [(18, 100), (17, 100), (16, 100), (15, 100), (14, 100), (13, 100),
          (6, 100), (5, 100), (4, 100), (3, 100), (2, 100), (1, 100),
          (24, 0), (23, 0), (22, 0), (21, 0), (20, 0), (19, 0),
          (12, 0), (11, 0), (10, 0), (9, 0), (8, 0), (7, 0)]"
  by (simp add: sorts_descending_reversing analysis_eval reversing_argsort_def)

text \<open>
  C7, amended. Whatever the sorting routine does with equal keys, as long as it returns a
  permutation of the row positions with the keys descending: the rows of the analysis are
  in descending order of percentage, and they are the finalised results reordered by a
  permutation (none lost, none repeated).
\<close>

theorem sorted_by_percentage:
  assumes "sorts_descending argsort"
    and "analyze_player_corsi_5v5 argsort group_mean series_round player_dict pbp_df = Inr rows"
  shows "(\<forall>i j. i < j \<and> j < length rows \<longrightarrow> Corsi_pct (rows ! j) \<le> Corsi_pct (rows ! i)) \<and>
     (\<exists>player_stats results perm.
        corsi_loop [] (corsi_events pbp_df) = Inr player_stats \<and>
        results_loop player_dict player_stats = Inr results \<and>
        distinct perm \<and> set perm = {..<length results} \<and>
        map result.truncate rows = map (\<lambda>i. results ! i) perm)"
proof (rule conjI)
  from analyze_returns[OF assms(2)] obtain player_stats results
    where st: "corsi_loop [] (corsi_events pbp_df) = Inr player_stats"
      and rs: "results_loop player_dict player_stats = Inr results"
      and rows: "rows = add_team_columns group_mean series_round player_dict (sort_values argsort results)"
    by blast
  let ?keys = "map Corsi_pct results"
  have "sorted_wrt (\<lambda>a b. b \<le> a) (map (\<lambda>i. ?keys ! i) (argsort ?keys))"
    using assms(1) by (simp add: sorts_descending_def)
  then have "sorted_wrt (\<lambda>a b. b \<le> a) (map Corsi_pct rows)"
    by (simp add: rows add_team_columns_pct sort_values_keys[OF assms(1)])
  then show "\<forall>i j. i < j \<and> j < length rows \<longrightarrow> Corsi_pct (rows ! j) \<le> Corsi_pct (rows ! i)"
    by (auto simp: sorted_wrt_iff_nth_less)
  have "distinct (argsort ?keys) \<and> set (argsort ?keys) = {..<length results}"
    using assms(1) by (simp add: sorts_descending_def)
  moreover have "map result.truncate rows = map (\<lambda>i. results ! i) (argsort ?keys)"
    by (simp add: rows add_team_columns_truncate sort_values_def)
  ultimately show "\<exists>player_stats results perm.
        corsi_loop [] (corsi_events pbp_df) = Inr player_stats \<and>
        results_loop player_dict player_stats = Inr results \<and>
        distinct perm \<and> set perm = {..<length results} \<and>
        map result.truncate rows = map (\<lambda>i. results ! i) perm"
    using st rs by blast
qed


theorem sorted_by_percentage_witness:
  "\<exists>rows. analyze_player_corsi_5v5 stable_argsort arithmetic_mean half_even_tenths Map.empty
       [example_shot 506 1551 (Some 1) [1, 2, 3, 4, 5, 6] [7, 8, 9, 10, 11, 12]] = Inr rows \<and>
     map r_playerId rows = [1, 2, 3, 4, 5, 6, 7, 8, 9, 10, 11, 12] \<and>
     Corsi_pct (rows ! 11) \<le> Corsi_pct (rows ! 0)"
proof -
  let ?a = "analyze_player_corsi_5v5 stable_argsort arithmetic_mean half_even_tenths Map.empty
       [example_shot 506 1551 (Some 1) [1, 2, 3, 4, 5, 6] [7, 8, 9, 10, 11, 12]]"
  have "map_sum id (map r_playerId) ?a = Inr [1, 2, 3, 4, 5, 6, 7, 8, 9, 10, 11, 12]"
    by (simp add: analysis_eval stable_argsort_def)
  then obtain rows where rows: "?a = Inr rows"
    and ids: "map r_playerId rows = [1, 2, 3, 4, 5, 6, 7, 8, 9, 10, 11, 12]"
    by (cases ?a) auto
  have "length (map r_playerId rows) = 12" unfolding ids by simp
  then have "length rows = 12" by simp
  with sorted_by_percentage[OF sorts_descending_stable rows]
  have "Corsi_pct (rows ! 11) \<le> Corsi_pct (rows ! 0)" by simp
  with rows ids show ?thesis by (intro exI conjI)
qed

text \<open>
  C10, as stated, fails for the relative percentage: the team of a row is looked up in
  the player directory, and the team mean that is subtracted is taken over the rows with
  the same directory team. The same events give relative percentage 0 for every player
  under a directory with two teams, and +50 and -50 under a directory that puts all
  players in one team. (The percentages are 100 and 0 and the team means 100, 0 and 50,
  all of them floats, so the mean and the rounding of the library are exact here.)
\<close>

theorem relative_percentage_uses_directory:
  "map_sum id (map Corsi_rel)
     (analyze_player_corsi_5v5 stable_argsort arithmetic_mean half_even_tenths
        (\<lambda>p. Some \<lparr>fullName = None, info_team = (if p \<le> 6 then ''NJD'' else ''PIT'')\<rparr>)
        [example_shot 506 1551 (Some 1) [1, 2, 3, 4, 5, 6] [7, 8, 9, 10, 11, 12]]) =
     Inr [Some 0, Some 0, Some 0, Some 0, Some 0, Some 0,
          Some 0, Some 0, Some 0, Some 0, Some 0, Some 0] \<and>
   map_sum id (map Corsi_rel)
     (analyze_player_corsi_5v5 stable_argsort arithmetic_mean half_even_tenths
        (\<lambda>p. Some \<lparr>fullName = None, info_team = ''NJD''\<rparr>)
        [example_shot 506 1551 (Some 1) [1, 2, 3, 4, 5, 6] [7, 8, 9, 10, 11, 12]]) =
     Inr [Some 50, Some 50, Some 50, Some 50, Some 50, Some 50,
          Some (- 50), Some (- 50), Some (- 50), Some (- 50), Some (- 50), Some (- 50)]"
  by (simp add: analysis_eval stable_argsort_def)

text \<open>
  C10, amended. For two player directories and the same events the analysis raises the
  same error or returns rows with the same player ids, CF, CA, attempts, percentage and
  event counts in the same order. The team label and the relative percentage depend on
  the directory, through its team entries only: directories that agree on every player's
  team give the same team labels and relative percentages. This holds whatever the
  library's sort does with equal keys and however its mean and rounding treat floats.
\<close>

theorem directory_labels_only:
  assumes "sorts_descending argsort"
  shows "map_sum id (map numeric_columns)
           (analyze_player_corsi_5v5 argsort group_mean series_round d1 pbp_df) =
         map_sum id (map numeric_columns)
           (analyze_player_corsi_5v5 argsort group_mean series_round d2 pbp_df) \<and>
         ((\<forall>p. team_info d1 p = team_info d2 p) \<longrightarrow>
            map_sum id (map (\<lambda>r. (team r, Corsi_rel r)))
              (analyze_player_corsi_5v5 argsort group_mean series_round d1 pbp_df) =
            map_sum id (map (\<lambda>r. (team r, Corsi_rel r)))
              (analyze_player_corsi_5v5 argsort group_mean series_round d2 pbp_df))"
proof (cases "corsi_loop [] (corsi_events pbp_df)")
  case (Inl e)
  then show ?thesis by (simp add: analyze_player_corsi_5v5_def)
next
  case (Inr st)
  note dir = results_loop_directory[of d1 st d2]
  show ?thesis
  proof (cases "results_loop d1 st")
    case (Inl e)
    with dir have "results_loop d2 st = Inl e" by (cases "results_loop d2 st") simp_all
    with Inl Inr show ?thesis by (simp add: analyze_player_corsi_5v5_def)
  next
    case rs1: (Inr rs1)
    with dir obtain rs2 where rs2: "results_loop d2 st = Inr rs2"
      and cols: "map numeric_columns rs1 = map numeric_columns rs2"
      by (cases "results_loop d2 st") simp_all
    from cols have "length rs1 = length rs2" by (rule map_eq_imp_length_eq)
    then have empty: "rs1 = [] \<longleftrightarrow> rs2 = []" by auto
    show ?thesis
    proof (cases "rs1 = []")
      case True
      then show ?thesis using Inr rs1 rs2 empty by (simp add: analyze_player_corsi_5v5_def)
    next
      case False
      then have ne: "rs1 \<noteq> []" "rs2 \<noteq> []" using empty by auto
      let ?s1 = "sort_values argsort rs1" and ?s2 = "sort_values argsort rs2"
      have a1: "analyze_player_corsi_5v5 argsort group_mean series_round d1 pbp_df =
          Inr (add_team_columns group_mean series_round d1 ?s1)"
        using Inr rs1 ne by (simp add: analyze_player_corsi_5v5_def)
      have a2: "analyze_player_corsi_5v5 argsort group_mean series_round d2 pbp_df =
          Inr (add_team_columns group_mean series_round d2 ?s2)"
        using Inr rs2 ne by (simp add: analyze_player_corsi_5v5_def)
      have pct: "map Corsi_pct rs1 = map Corsi_pct rs2"
        using cols by (simp only: pct_of_columns)
      have scols: "map numeric_columns ?s1 = map numeric_columns ?s2"
        by (simp only: sort_values_columns[OF assms] cols pct)
      have part1: "map numeric_columns (add_team_columns group_mean series_round d1 ?s1) =
          map numeric_columns (add_team_columns group_mean series_round d2 ?s2)"
        by (simp only: add_team_columns_columns scols)
      have part2: "map (\<lambda>r. (team r, Corsi_rel r)) (add_team_columns group_mean series_round d1 ?s1) =
          map (\<lambda>r. (team r, Corsi_rel r)) (add_team_columns group_mean series_round d2 ?s2)"
        if same: "\<forall>p. team_info d1 p = team_info d2 p"
      proof -
        have t: "team_info d1 = team_info d2" using same by auto
        have "map (\<lambda>r. (r_playerId r, Corsi_pct r)) ?s1 = map (\<lambda>r. (r_playerId r, Corsi_pct r)) ?s2"
          using scols by (simp only: id_pct_of_columns)
        then show ?thesis by (simp only: team_columns t)
      qed
      show ?thesis using a1 a2 part1 part2 by simp
    qed
  qed
qed


theorem directory_labels_only_witness:
  "map_sum id (map numeric_columns)
     (analyze_player_corsi_5v5 stable_argsort arithmetic_mean half_even_tenths
        (\<lambda>p. Some \<lparr>fullName = None, info_team = (if p \<le> 6 then ''NJD'' else ''PIT'')\<rparr>)
        [example_shot 506 1551 (Some 1) [1, 2, 3, 4, 5, 6] [7, 8, 9, 10, 11, 12]]) =
   map_sum id (map numeric_columns)
     (analyze_player_corsi_5v5 stable_argsort arithmetic_mean half_even_tenths
        (\<lambda>p. Some \<lparr>fullName = None, info_team = ''NJD''\<rparr>)
        [example_shot 506 1551 (Some 1) [1, 2, 3, 4, 5, 6] [7, 8, 9, 10, 11, 12]]) \<and>
   map_sum id (map numeric_columns)
     (analyze_player_corsi_5v5 stable_argsort arithmetic_mean half_even_tenths
        (\<lambda>p. Some \<lparr>fullName = None, info_team = ''NJD''\<rparr>)
        [example_shot 506 1551 (Some 1) [1, 2, 3, 4, 5, 6] [7, 8, 9, 10, 11, 12]]) =
     Inr [(1, 1, 0, 1, 100, 1), (2, 1, 0, 1, 100, 1), (3, 1, 0, 1, 100, 1),
          (4, 1, 0, 1, 100, 1), (5, 1, 0, 1, 100, 1), (6, 1, 0, 1, 100, 1),
          (7, 0, 1, 1, 0, 1), (8, 0, 1, 1, 0, 1), (9, 0, 1, 1, 0, 1),
          (10, 0, 1, 1, 0, 1), (11, 0, 1, 1, 0, 1), (12, 0, 1, 1, 0, 1)]"
proof -
  have "map_sum id (map numeric_columns)
     (analyze_player_corsi_5v5 stable_argsort arithmetic_mean half_even_tenths
        (\<lambda>p. Some \<lparr>fullName = None, info_team = ''NJD''\<rparr>)
        [example_shot 506 1551 (Some 1) [1, 2, 3, 4, 5, 6] [7, 8, 9, 10, 11, 12]]) =
     Inr [(1, 1, 0, 1, 100, 1), (2, 1, 0, 1, 100, 1), (3, 1, 0, 1, 100, 1),
          (4, 1, 0, 1, 100, 1), (5, 1, 0, 1, 100, 1), (6, 1, 0, 1, 100, 1),
          (7, 0, 1, 1, 0, 1), (8, 0, 1, 1, 0, 1), (9, 0, 1, 1, 0, 1),
          (10, 0, 1, 1, 0, 1), (11, 0, 1, 1, 0, 1), (12, 0, 1, 1, 0, 1)]"
    by (simp add: analysis_eval stable_argsort_def numeric_columns_def)
  with directory_labels_only[OF sorts_descending_stable, THEN conjunct1,
      of arithmetic_mean half_even_tenths "(\<lambda>p. Some \<lparr>fullName = None, info_team = (if p \<le> 6 then ''NJD'' else ''PIT'')\<rparr>)"
         "[example_shot 506 1551 (Some 1) [1, 2, 3, 4, 5, 6] [7, 8, 9, 10, 11, 12]]"
         "(\<lambda>p. Some \<lparr>fullName = None, info_team = ''NJD''\<rparr>)"]
  show ?thesis by blast
qed

end
